(* ===== verification/Go_Prelude.thy ===== *)
theory Go_Prelude
  imports Main "HOL-Library.Word" "HOL-Library.Signed_Division"
begin

text \<open>
  The part of Go the library's code is written in: the 64-bit \<^verbatim>\<open>int\<close> and \<^verbatim>\<open>int64\<close>, instants
  and durations of package \<^verbatim>\<open>time\<close>, errors and panics as values, channels, slices. Also the
  collections of rewrite rules the component theories share.
\<close>

unbundle bit_operations_syntax

named_theorems go_simps \<open>equations that evaluate the Go primitives\<close>

section \<open>Machine integers\<close>

type_synonym byte = "8 word"

text \<open>
  Go's \<^verbatim>\<open>int\<close> (on a 64-bit platform) and \<^verbatim>\<open>int64\<close> are HOL integers kept in
  two's complement range by \<open>i64\<close>, which is written at every operation that can overflow.
\<close>

definition i64 :: "int \<Rightarrow> int" where
  "i64 x = (x + 2 ^ 63) mod 2 ^ 64 - 2 ^ 63"

definition is_i64 :: "int \<Rightarrow> bool" where
  "is_i64 x \<longleftrightarrow> - (2 ^ 63) \<le> x \<and> x < 2 ^ 63"

lemma i64_id: "is_i64 x \<Longrightarrow> i64 x = x"
  by (simp add: i64_def is_i64_def)

lemma is_i64_i64 [simp, intro]: "is_i64 (i64 x)"
proof -
  have "0 \<le> (x + 2 ^ 63) mod 2 ^ 64" "(x + 2 ^ 63) mod 2 ^ 64 < (2 ^ 64 :: int)"
    by simp_all
  then show ?thesis by (simp add: i64_def is_i64_def)
qed

lemma i64_idem [simp]: "i64 (i64 x) = i64 x"
  by (rule i64_id) simp

lemma i64_mod_eq: "i64 x = i64 y \<longleftrightarrow> x mod 2 ^ 64 = y mod 2 ^ 64"
proof
  assume "i64 x = i64 y"
  then have "(x + 2 ^ 63) mod 2 ^ 64 = (y + 2 ^ 63) mod 2 ^ 64"
    by (simp add: i64_def)
  then have "(x + 2 ^ 63 - 2 ^ 63) mod 2 ^ 64 = (y + 2 ^ 63 - 2 ^ 63) mod 2 ^ 64"
    by (rule mod_diff_cong) simp
  then show "x mod 2 ^ 64 = y mod 2 ^ 64" by simp
next
  assume "x mod 2 ^ 64 = y mod 2 ^ 64"
  then have "(x + 2 ^ 63) mod 2 ^ 64 = (y + 2 ^ 63) mod 2 ^ 64"
    by (rule mod_add_cong) simp
  then show "i64 x = i64 y" by (simp add: i64_def)
qed

lemma i64_mod [simp]: "i64 x mod 2 ^ 64 = x mod 2 ^ 64"
  using i64_mod_eq [of "i64 x" x] by simp

lemma i64_add_left [simp]: "i64 (i64 x + y) = i64 (x + y)"
  unfolding i64_mod_eq by (rule mod_add_cong) (simp_all only: i64_mod)

lemma i64_add_right [simp]: "i64 (x + i64 y) = i64 (x + y)"
  unfolding i64_mod_eq by (rule mod_add_cong) (simp_all only: i64_mod)

lemma i64_diff_left [simp]: "i64 (i64 x - y) = i64 (x - y)"
  unfolding i64_mod_eq by (rule mod_diff_cong) (simp_all only: i64_mod)

lemma i64_diff_right [simp]: "i64 (x - i64 y) = i64 (x - y)"
  unfolding i64_mod_eq by (rule mod_diff_cong) (simp_all only: i64_mod)

lemma i64_succ: "is_i64 n \<Longrightarrow> n < 2 ^ 63 - 1 \<Longrightarrow> i64 (n + 1) = n + 1"
  by (rule i64_id) (simp add: is_i64_def)

text \<open>Go's integer division truncates towards zero; a zero divisor panics.\<close>

lemma sdiv_pos_between:
  assumes "0 < (n :: int)"
  shows "0 \<le> d \<Longrightarrow> 0 \<le> d sdiv n \<and> d sdiv n \<le> d"
    and "d \<le> 0 \<Longrightarrow> d \<le> d sdiv n \<and> d sdiv n \<le> 0"
proof -
  have le: "\<bar>d\<bar> div n \<le> \<bar>d\<bar>" and nn: "0 \<le> \<bar>d\<bar> div n"
    using assms zdiv_mono2 [of "\<bar>d\<bar>" 1 n] by (simp_all add: pos_imp_zdiv_nonneg_iff)
  show "0 \<le> d \<Longrightarrow> 0 \<le> d sdiv n \<and> d sdiv n \<le> d"
    using assms le nn by (auto simp: signed_divide_int_def sgn_if)
  show "d \<le> 0 \<Longrightarrow> d \<le> d sdiv n \<and> d sdiv n \<le> 0"
    using assms le nn by (auto simp: signed_divide_int_def sgn_if)
qed

section \<open>Time\<close>

text \<open>
  A \<^verbatim>\<open>time.Time\<close> is an instant, here its nanoseconds since the Unix epoch; a
  \<^verbatim>\<open>time.Duration\<close> is an \<^verbatim>\<open>int64\<close> of nanoseconds. \<^verbatim>\<open>Sub\<close> saturates at the
  ends of the \<^verbatim>\<open>int64\<close> range.
\<close>

type_synonym time = int
type_synonym duration = int

definition time_Unix :: "int \<Rightarrow> int \<Rightarrow> time" where
  "time_Unix sec nsec = sec * 1000000000 + nsec"

definition time_Sub :: "time \<Rightarrow> time \<Rightarrow> duration" where
  "time_Sub t u = max (- (2 ^ 63)) (min (2 ^ 63 - 1) (t - u))"

lemma is_i64_time_Sub [simp, intro]: "is_i64 (time_Sub t u)"
  by (simp add: time_Sub_def is_i64_def)

lemma time_Sub_exact: "is_i64 (t - u) \<Longrightarrow> time_Sub t u = t - u"
  by (simp add: time_Sub_def is_i64_def)

section \<open>Errors and panics\<close>

text \<open>
  \<open>errno\<close> is \<^verbatim>\<open>syscall.Errno\<close>. Of an \<^verbatim>\<open>*net.OpError\<close> the code reads the wrapped
  error and what its \<^verbatim>\<open>Timeout()\<close> answers; \<open>SyscallError\<close> is \<^verbatim>\<open>*os.SyscallError\<close>. The
  constructors with a capital \<open>Err\<close> or \<open>E_\<close> are the errors the library builds itself;
  \<open>ExternalError\<close> is any other error of a package it calls.
\<close>

datatype errno = EACCES | ENOBUFS | OtherErrno nat

datatype go_error =
    Errno errno
  | SyscallError string go_error
  | OpError bool go_error
  | ContextCanceled
  | ContextDeadlineExceeded
  | ExternalError nat
  | ErrMarkNotSupported
  | ErrDFNotSupported
  | E_addr_empty
  | E_no_addresses string
  | E_size int int
  | E_setting_mark go_error
  | E_setting_df go_error
  | E_setting_tclass go_error
  | E_invalid_source string
  | E_parsing_icmp go_error
  | E_insufficient_data nat "byte list"
  | E_decoding_uuid go_error
  | E_marshal_uuid go_error
  | E_invalid_echo_reply
  | E_invalid_type

text \<open>
  \<^verbatim>\<open>errors.Is(err, errno)\<close> follows the \<^verbatim>\<open>Unwrap\<close> chain; the errors the library
  builds with the verb \<^verbatim>\<open>%w\<close> have one, those with \<^verbatim>\<open>%v\<close> do not.
\<close>

fun errors_Is :: "go_error \<Rightarrow> errno \<Rightarrow> bool" where
  "errors_Is (Errno n) t = (n = t)"
| "errors_Is (SyscallError _ e) t = errors_Is e t"
| "errors_Is (OpError _ e) t = errors_Is e t"
| "errors_Is (E_parsing_icmp e) t = errors_Is e t"
| "errors_Is (E_decoding_uuid e) t = errors_Is e t"
| "errors_Is (E_marshal_uuid e) t = errors_Is e t"
| "errors_Is _ t = False"

text \<open>\<^verbatim>\<open>os.NewSyscallError\<close> maps a nil error to nil.\<close>

definition NewSyscallError :: "string \<Rightarrow> go_error option \<Rightarrow> go_error option" where
  "NewSyscallError name e = map_option (SyscallError name) e"

datatype panic =
    IndexOutOfRange
  | SliceBounds
  | DivideByZero
  | NilDereference
  | NilMapWrite
  | CloseOfClosed
  | CloseOfNil
  | SendOnClosed
  | NonPositiveTicker
  | NegativeChanSize
  | InvalidArgument

text \<open>A call that may panic: \<open>Inl\<close> the panic, \<open>Inr\<close> the returned value.\<close>

type_synonym 'a go = "panic + 'a"

definition go_bind :: "'a go \<Rightarrow> ('a \<Rightarrow> 'b go) \<Rightarrow> 'b go" where
  "go_bind m f = (case m of Inl e \<Rightarrow> Inl e | Inr x \<Rightarrow> f x)"

lemma go_bind_simps [simp, go_simps]:
  "go_bind (Inl e) f = Inl e"
  "go_bind (Inr x) f = f x"
  by (simp_all add: go_bind_def)

lemma go_bind_Inr_iff: "go_bind m f = Inr y \<longleftrightarrow> (\<exists>x. m = Inr x \<and> f x = Inr y)"
  by (cases m) simp_all

section \<open>Channels\<close>

text \<open>A channel that is only ever closed, never sent on: \<^verbatim>\<open>chan any\<close> used as a stop signal.\<close>

datatype chan = NilChan | OpenChan | ClosedChan

text \<open>A receive from it is ready exactly when it is closed.\<close>

definition chan_ready :: "chan \<Rightarrow> bool" where
  "chan_ready c \<longleftrightarrow> c = ClosedChan"

fun chan_close :: "chan \<Rightarrow> chan go" where
  "chan_close NilChan = Inl CloseOfNil"
| "chan_close OpenChan = Inr ClosedChan"
| "chan_close ClosedChan = Inl CloseOfClosed"

text \<open>Such a channel goes one way: from nil to open to closed.\<close>

instantiation chan :: linorder
begin

fun chan_rank :: "chan \<Rightarrow> nat" where
  "chan_rank NilChan = 0"
| "chan_rank OpenChan = 1"
| "chan_rank ClosedChan = 2"

definition less_eq_chan :: "chan \<Rightarrow> chan \<Rightarrow> bool" where
  "less_eq_chan c d \<longleftrightarrow> chan_rank c \<le> chan_rank d"

definition less_chan :: "chan \<Rightarrow> chan \<Rightarrow> bool" where
  "less_chan c d \<longleftrightarrow> chan_rank c < chan_rank d"

instance
proof
  fix c d :: chan
  show "c \<le> d \<Longrightarrow> d \<le> c \<Longrightarrow> c = d" by (cases c; cases d) (simp_all add: less_eq_chan_def)
qed (auto simp: less_eq_chan_def less_chan_def)

end

lemma chan_top [simp]: "c \<le> ClosedChan" "ClosedChan \<le> c \<longleftrightarrow> c = ClosedChan"
  by (cases c; simp add: less_eq_chan_def)+

fun_cases chan_closeE: "chan_close c = Inr d"

lemma chan_close_greater: "chan_close c = Inr d \<Longrightarrow> c < d"
  by (elim chan_closeE) (simp add: less_chan_def)

section \<open>Slices\<close>

definition slice :: "nat \<Rightarrow> nat \<Rightarrow> 'a list \<Rightarrow> 'a list go" where
  "slice lo hi xs = (if lo \<le> hi \<and> hi \<le> length xs then Inr (take (hi - lo) (drop lo xs)) else Inl SliceBounds)"

definition index :: "'a list \<Rightarrow> nat \<Rightarrow> 'a go" where
  "index xs i = (if i < length xs then Inr (xs ! i) else Inl IndexOutOfRange)"

lemma slice_Inr: "lo \<le> hi \<Longrightarrow> hi \<le> length xs \<Longrightarrow> slice lo hi xs = Inr (take (hi - lo) (drop lo xs))"
  by (simp add: slice_def)

lemma slice_prefix: "slice 0 (length xs) (xs @ ys) = Inr xs"
  by (simp add: slice_def)

lemma slice_middle:
  "lo = length xs \<Longrightarrow> hi = length xs + length ys \<Longrightarrow> slice lo hi (xs @ ys @ zs) = Inr ys"
  by (simp add: slice_def)

end
