(* ===== verification/Net_Addr.thy ===== *)
theory Net_Addr
  imports Go_Prelude
begin

text \<open>
  The addresses of package \<^verbatim>\<open>net\<close> as far as the library looks into them, and
  \<^verbatim>\<open>isIPv4\<close> of \<^verbatim>\<open>ping.go\<close>.
\<close>

text \<open>A \<^verbatim>\<open>net.IP\<close> is a byte slice, empty when nil.\<close>

type_synonym ip = "byte list"

definition v4_prefix :: ip where
  "v4_prefix = replicate 10 0 @ [0xff, 0xff]"

text \<open>\<open>None\<close> is the nil slice \<^verbatim>\<open>To4\<close> and \<^verbatim>\<open>To16\<close> return for an address of another family.\<close>

definition To4 :: "ip \<Rightarrow> ip option" where
  "To4 a = (if length a = 4 then Some a
     else if length a = 16 \<and> take 12 a = v4_prefix then Some (drop 12 a) else None)"

definition To16 :: "ip \<Rightarrow> ip option" where
  "To16 a = (if length a = 4 then Some (v4_prefix @ a)
     else if length a = 16 then Some a else None)"

definition isIPv4 :: "ip \<Rightarrow> bool" where
  "isIPv4 a \<longleftrightarrow> (case To4 a of None \<Rightarrow> 0 | Some b \<Rightarrow> length b) = (4 :: nat)"

text \<open>\<^verbatim>\<open>*net.IPAddr\<close>; a pointer that may be nil is an option.\<close>

record ip_addr =
  IP :: ip
  Zone :: string

text \<open>
  A \<^verbatim>\<open>net.Addr\<close>: a \<^verbatim>\<open>*net.IPAddr\<close>, a \<^verbatim>\<open>*net.UDPAddr\<close> (address and zone, the port is never
  used), or a value of another type.
\<close>

datatype net_addr = AddrIP "ip_addr option" | AddrUDP ip string | AddrOther nat

lemma isIPv4_iff: "isIPv4 a \<longleftrightarrow> To4 a \<noteq> None"
  by (auto simp: isIPv4_def To4_def)

lemma To4_length: "To4 a = Some b \<Longrightarrow> length b = 4"
  by (auto simp: To4_def split: if_splits)

text \<open>Both written forms of an IPv4 address are recognised, and they denote the same address.\<close>

lemma To4_To16: "To16 a = Some b \<Longrightarrow> To4 b = To4 a"
  by (auto simp: To4_def To16_def v4_prefix_def split: if_splits)

end
