(* ===== verification/Packet_Conn.thy ===== *)
theory Packet_Conn
  imports Net_Addr
begin

text \<open>
  \<^verbatim>\<open>packetconn.go\<close>: the interface \<^verbatim>\<open>packetConn\<close> as a record of its methods over a connection
  state \<open>'c\<close>, and the parts of its two implementations \<^verbatim>\<open>icmpv4Conn\<close> and \<^verbatim>\<open>icmpV6Conn\<close> that
  all platforms share. The socket itself, an \<^verbatim>\<open>*icmp.PacketConn\<close> of \<^verbatim>\<open>golang.org/x/net\<close>, is
  a state \<open>'s\<close> with the operations of the record \<open>xnet\<close>, which are parameters.
\<close>

section \<open>Message types and filters\<close>

text \<open>\<^verbatim>\<open>ipv4.ICMPType\<close> and \<^verbatim>\<open>ipv6.ICMPType\<close>, two types that never compare equal.\<close>

datatype icmp_type = ICMPv4 int | ICMPv6 int

definition ipv4_ICMPTypeEcho :: icmp_type where "ipv4_ICMPTypeEcho = ICMPv4 8"
definition ipv4_ICMPTypeEchoReply :: icmp_type where "ipv4_ICMPTypeEchoReply = ICMPv4 0"
definition ipv6_ICMPTypeEchoRequest :: icmp_type where "ipv6_ICMPTypeEchoRequest = ICMPv6 128"
definition ipv6_ICMPTypeEchoReply :: icmp_type where "ipv6_ICMPTypeEchoReply = ICMPv6 129"

text \<open>The instructions of \<^verbatim>\<open>golang.org/x/net/bpf\<close> the library's socket filters are written in.\<close>

datatype bpf_instr =
    LoadMemShift nat
  | LoadIndirect nat nat
  | LoadAbsolute nat nat
  | JumpIfEqual "32 word" nat nat
  | RetConstant "32 word"

section \<open>The interface\<close>

record 'c packet_conn =
  Close :: "'c \<Rightarrow> 'c \<times> go_error option"
  ICMPRequestType :: "'c \<Rightarrow> icmp_type"
  ReadFrom :: "'c \<Rightarrow> byte list \<Rightarrow> 'c \<times> byte list \<times> int \<times> int \<times> net_addr \<times> go_error option"
  SetFlagTTL :: "'c \<Rightarrow> 'c \<times> go_error option"
  SetReadDeadline :: "'c \<Rightarrow> time \<Rightarrow> 'c \<times> go_error option"
  WriteTo :: "'c \<Rightarrow> byte list \<Rightarrow> net_addr \<Rightarrow> 'c \<times> int \<times> go_error option"
  SetTTL :: "'c \<Rightarrow> int \<Rightarrow> 'c"
  c_SetMark :: "'c \<Rightarrow> int \<Rightarrow> 'c \<times> go_error option"
  c_SetDoNotFragment :: "'c \<Rightarrow> 'c \<times> go_error option"
  SetBroadcastFlag :: "'c \<Rightarrow> 'c \<times> go_error option"
  SetIfIndex :: "'c \<Rightarrow> int \<Rightarrow> 'c"
  SetSource :: "'c \<Rightarrow> ip \<Rightarrow> 'c"
  c_SetTrafficClass :: "'c \<Rightarrow> byte \<Rightarrow> 'c \<times> go_error option"
  InstallICMPIDFilter :: "'c \<Rightarrow> int \<Rightarrow> 'c \<times> go_error option"

section \<open>The socket\<close>

text \<open>
  A control message of \<^verbatim>\<open>ipv4\<close> or \<^verbatim>\<open>ipv6\<close> (its \<^verbatim>\<open>TTL\<close> is \<^verbatim>\<open>HopLimit\<close> in the latter), and the
  flags that ask for its fields.
\<close>

record control_message =
  cm_TTL :: int
  cm_Src :: ip
  cm_IfIndex :: int

datatype control_flag = FlagTTL | FlagInterface

text \<open>
  The operations of one address family: \<^verbatim>\<open>IPv4PacketConn()\<close> or \<^verbatim>\<open>IPv6PacketConn()\<close> with
  \<^verbatim>\<open>SetTTL\<close> or \<^verbatim>\<open>SetHopLimit\<close> as \<open>xn_SetHops\<close> and \<^verbatim>\<open>SetTOS\<close> or \<^verbatim>\<open>SetTrafficClass\<close> as
  \<open>xn_SetClass\<close>; \<^verbatim>\<open>bpf.Assemble\<close> (its error) and \<^verbatim>\<open>SetBPF\<close>; the fields
  \<^verbatim>\<open>getFD\<close> reads by reflection; and the system call \<^verbatim>\<open>setsockopt\<close>.
\<close>

record 's xnet =
  xn_Close :: "'s \<Rightarrow> 's \<times> go_error option"
  xn_SetReadDeadline :: "'s \<Rightarrow> time \<Rightarrow> 's \<times> go_error option"
  xn_SetControlMessage :: "'s \<Rightarrow> control_flag \<Rightarrow> bool \<Rightarrow> 's \<times> go_error option"
  xn_SetHops :: "'s \<Rightarrow> int \<Rightarrow> 's \<times> go_error option"
  xn_SetClass :: "'s \<Rightarrow> int \<Rightarrow> 's \<times> go_error option"
  xn_ReadFrom :: "'s \<Rightarrow> byte list \<Rightarrow> 's \<times> byte list \<times> int \<times> control_message option \<times> net_addr \<times> go_error option"
  xn_WriteTo :: "'s \<Rightarrow> byte list \<Rightarrow> control_message option \<Rightarrow> net_addr \<Rightarrow> 's \<times> int \<times> go_error option"
  xn_Assemble :: "bpf_instr list \<Rightarrow> go_error option"
  xn_SetBPF :: "'s \<Rightarrow> bpf_instr list \<Rightarrow> 's \<times> go_error option"
  xn_c_is_struct :: "'s \<Rightarrow> bool"
  xn_fd_is_struct :: "'s \<Rightarrow> bool"
  xn_pfd_is_struct :: "'s \<Rightarrow> bool"
  xn_Sysfd :: "'s \<Rightarrow> int"
  xn_Setsockopt :: "'s \<Rightarrow> int \<Rightarrow> string \<Rightarrow> string \<Rightarrow> int \<Rightarrow> 's \<times> go_error option"

datatype goos = Linux | Windows | Darwin | OtherOS

section \<open>icmpConn\<close>

text \<open>\<^verbatim>\<open>source\<close> is the nil slice \<open>[]\<close> when not set, \<^verbatim>\<open>ifIndex\<close> is 0.\<close>

record 's icmp_conn =
  sock :: 's
  conn_ttl :: int
  ifIndex :: int
  source :: ip

text \<open>An operation of the socket, lifted to the connection that holds it.\<close>

definition on_sock :: "'s icmp_conn \<Rightarrow> 's \<times> 'r \<Rightarrow> 's icmp_conn \<times> 'r" where
  "on_sock c r = (c\<lparr>sock := fst r\<rparr>, snd r)"

definition icmpConn_Close :: "'s xnet \<Rightarrow> 's icmp_conn \<Rightarrow> 's icmp_conn \<times> go_error option" where
  "icmpConn_Close xn c = on_sock c (xn_Close xn (sock c))"

definition icmpConn_SetTTL :: "'s icmp_conn \<Rightarrow> int \<Rightarrow> 's icmp_conn" where
  "icmpConn_SetTTL c n = c\<lparr>conn_ttl := n\<rparr>"

definition icmpConn_SetIfIndex :: "'s icmp_conn \<Rightarrow> int \<Rightarrow> 's icmp_conn" where
  "icmpConn_SetIfIndex c i = c\<lparr>ifIndex := i\<rparr>"

definition icmpConn_SetSource :: "'s icmp_conn \<Rightarrow> ip \<Rightarrow> 's icmp_conn" where
  "icmpConn_SetSource c a = c\<lparr>source := a\<rparr>"

definition icmpConn_SetReadDeadline :: "'s xnet \<Rightarrow> 's icmp_conn \<Rightarrow> time \<Rightarrow> 's icmp_conn \<times> go_error option" where
  "icmpConn_SetReadDeadline xn c t = on_sock c (xn_SetReadDeadline xn (sock c) t)"

section \<open>icmpv4Conn and icmpV6Conn\<close>

definition icmpv4Conn_SetFlagTTL :: "goos \<Rightarrow> 's xnet \<Rightarrow> 's icmp_conn \<Rightarrow> 's icmp_conn \<times> go_error option" where
  "icmpv4Conn_SetFlagTTL os xn c =
     (let (c, err) = on_sock c (xn_SetControlMessage xn (sock c) FlagTTL True)
      in if os = Windows then (c, None) else (c, err))"

definition icmpV6Conn_SetFlagTTL :: "goos \<Rightarrow> 's xnet \<Rightarrow> 's icmp_conn \<Rightarrow> 's icmp_conn \<times> go_error option" where
  "icmpV6Conn_SetFlagTTL os xn c =
     (let (c, err) = on_sock c (xn_SetControlMessage xn (sock c) FlagTTL True)
      in if os = Windows then (c, None) else (c, err))"

definition icmpv4Conn_SetTrafficClass :: "'s xnet \<Rightarrow> 's icmp_conn \<Rightarrow> byte \<Rightarrow> 's icmp_conn \<times> go_error option" where
  "icmpv4Conn_SetTrafficClass xn c tc = on_sock c (xn_SetClass xn (sock c) (uint tc))"

definition icmpV6Conn_SetTrafficClass :: "'s xnet \<Rightarrow> 's icmp_conn \<Rightarrow> byte \<Rightarrow> 's icmp_conn \<times> go_error option" where
  "icmpV6Conn_SetTrafficClass xn c tc = on_sock c (xn_SetClass xn (sock c) (uint tc))"

definition icmpv4Conn_ReadFrom ::
  "'s xnet \<Rightarrow> 's icmp_conn \<Rightarrow> byte list \<Rightarrow> 's icmp_conn \<times> byte list \<times> int \<times> int \<times> net_addr \<times> go_error option" where
  "icmpv4Conn_ReadFrom xn c b =
     (let t = - 1;
          (c, b, n, cm, src, err) = on_sock c (xn_ReadFrom xn (sock c) b);
          t = (case cm of None \<Rightarrow> t | Some m \<Rightarrow> cm_TTL m)
      in (c, b, n, t, src, err))"

definition icmpV6Conn_ReadFrom ::
  "'s xnet \<Rightarrow> 's icmp_conn \<Rightarrow> byte list \<Rightarrow> 's icmp_conn \<times> byte list \<times> int \<times> int \<times> net_addr \<times> go_error option" where
  "icmpV6Conn_ReadFrom xn c b =
     (let t = - 1;
          (c, b, n, cm, src, err) = on_sock c (xn_ReadFrom xn (sock c) b);
          t = (case cm of None \<Rightarrow> t | Some m \<Rightarrow> cm_TTL m)
      in (c, b, n, t, src, err))"

definition empty_cm :: control_message where
  "empty_cm = \<lparr>cm_TTL = 0, cm_Src = [], cm_IfIndex = 0\<rparr>"

text \<open>
  \<^verbatim>\<open>WriteTo\<close>: the TTL is set on the socket before every datagram; an interface index from 1 on and
  a source address go into a control message, which is nil when neither is set.
\<close>

definition icmpv4Conn_WriteTo ::
  "'s xnet \<Rightarrow> 's icmp_conn \<Rightarrow> byte list \<Rightarrow> net_addr \<Rightarrow> 's icmp_conn \<times> int \<times> go_error option" where
  "icmpv4Conn_WriteTo xn c b dst =
     (let (c, err) = on_sock c (xn_SetHops xn (sock c) (conn_ttl c)) in
      if err \<noteq> None then (c, 0, err)
      else
        let cm = None;
            (c, cm, err) =
              (if 1 \<le> ifIndex c
               then let (c, err) = on_sock c (xn_SetControlMessage xn (sock c) FlagInterface True)
                    in (c, Some (empty_cm\<lparr>cm_IfIndex := ifIndex c\<rparr>), err)
               else (c, cm, None))
        in if err \<noteq> None then (c, 0, err)
           else
             let cm = (if source c \<noteq> []
                       then let m = (case cm of None \<Rightarrow> empty_cm | Some m \<Rightarrow> m)
                            in Some (m\<lparr>cm_Src := source c\<rparr>)
                       else cm)
             in on_sock c (xn_WriteTo xn (sock c) b cm dst))"

definition icmpV6Conn_WriteTo ::
  "'s xnet \<Rightarrow> 's icmp_conn \<Rightarrow> byte list \<Rightarrow> net_addr \<Rightarrow> 's icmp_conn \<times> int \<times> go_error option" where
  "icmpV6Conn_WriteTo xn c b dst =
     (let (c, err) = on_sock c (xn_SetHops xn (sock c) (conn_ttl c)) in
      if err \<noteq> None then (c, 0, err)
      else
        let cm = None;
            (c, cm, err) =
              (if 1 \<le> ifIndex c
               then let (c, err) = on_sock c (xn_SetControlMessage xn (sock c) FlagInterface True)
                    in (c, Some (empty_cm\<lparr>cm_IfIndex := ifIndex c\<rparr>), err)
               else (c, cm, None))
        in if err \<noteq> None then (c, 0, err)
           else
             let cm = (if source c \<noteq> []
                       then let m = (case cm of None \<Rightarrow> empty_cm | Some m \<Rightarrow> m)
                            in Some (m\<lparr>cm_Src := source c\<rparr>)
                       else cm)
             in on_sock c (xn_WriteTo xn (sock c) b cm dst))"

definition icmpv4Conn_ICMPRequestType :: "'s icmp_conn \<Rightarrow> icmp_type" where
  "icmpv4Conn_ICMPRequestType c = ipv4_ICMPTypeEcho"

definition icmpV6Conn_ICMPRequestType :: "'s icmp_conn \<Rightarrow> icmp_type" where
  "icmpV6Conn_ICMPRequestType c = ipv6_ICMPTypeEchoRequest"

section \<open>What a write hands to the socket\<close>

text \<open>The specification of the control message: nil, or the index if set and the source if set.\<close>

definition expected_cm :: "'s icmp_conn \<Rightarrow> control_message option" where
  "expected_cm c = (if ifIndex c < 1 \<and> source c = [] then None
     else Some \<lparr>cm_TTL = 0, cm_Src = source c, cm_IfIndex = max 0 (if 1 \<le> ifIndex c then ifIndex c else 0)\<rparr>)"

lemma on_sock_simps [simp]:
  "sock (fst (on_sock c r)) = fst r" "snd (on_sock c r) = snd r"
  "conn_ttl (fst (on_sock c r)) = conn_ttl c" "ifIndex (fst (on_sock c r)) = ifIndex c"
  "source (fst (on_sock c r)) = source c"
  by (simp_all add: on_sock_def)

lemma WriteTo_spec:
  "icmpv4Conn_WriteTo xn c b dst =
    (let (s, err) = xn_SetHops xn (sock c) (conn_ttl c) in
     if err \<noteq> None then (c\<lparr>sock := s\<rparr>, 0, err)
     else let (s, err) = (if 1 \<le> ifIndex c then xn_SetControlMessage xn s FlagInterface True else (s, None)) in
       if err \<noteq> None then (c\<lparr>sock := s\<rparr>, 0, err)
       else let (s, r) = xn_WriteTo xn s b (expected_cm c) dst in (c\<lparr>sock := s\<rparr>, r))"
  by (auto simp: icmpv4Conn_WriteTo_def expected_cm_def on_sock_def empty_cm_def Let_def split: prod.splits)

lemma WriteTo_v6_eq: "icmpV6Conn_WriteTo = icmpv4Conn_WriteTo"
  by (intro ext) (simp add: icmpV6Conn_WriteTo_def icmpv4Conn_WriteTo_def)

end
