(* ===== verification/Wire_Codec.thy ===== *)
theory Wire_Codec
  imports Go_Prelude
begin

text \<open>
  The byte-level code of \<^verbatim>\<open>ping.go\<close>: the eight-byte big-endian time stamp at the head of every
  echo payload (\<^verbatim>\<open>timeToBytes\<close>, \<^verbatim>\<open>bytesToTime\<close>) and the removal of an IPv4 header in front of
  a received message (\<^verbatim>\<open>stripIPv4Header\<close>). The locale \<open>stamp_codec\<close> is what the sender
  and the receiver of a stamp rely on; it is interpreted on the two functions here.
\<close>

section \<open>Time stamps\<close>

text \<open>\<^verbatim>\<open>byte((nsec >> ((7 - i) * 8)) & 0xff)\<close>: the shift of a signed integer is arithmetic.\<close>

definition timeToBytes :: "time \<Rightarrow> byte list" where
  "timeToBytes t =
     (let nsec = word_of_int t :: 64 word
      in map (\<lambda>i. ucast (signed_drop_bit ((7 - i) * 8) nsec AND 0xff)) [0..<8])"

primrec sum_bytes :: "byte list \<Rightarrow> nat list \<Rightarrow> 64 word \<Rightarrow> (64 word) go" where
  "sum_bytes b [] nsec = Inr nsec"
| "sum_bytes b (i # is) nsec =
     go_bind (index b i) (\<lambda>x. sum_bytes b is (nsec + push_bit ((7 - i) * 8) (ucast x)))"

definition bytesToTime :: "byte list \<Rightarrow> time go" where
  "bytesToTime b = go_bind (sum_bytes b [0..<8] 0)
     (\<lambda>nsec. Inr (time_Unix (sint nsec sdiv 1000000000) (sint nsec smod 1000000000)))"

lemma length_timeToBytes [simp]: "length (timeToBytes t) = 8"
  by (simp add: timeToBytes_def Let_def)

lemma nth_timeToBytes:
  "i < 8 \<Longrightarrow> timeToBytes t ! i = ucast (signed_drop_bit ((7 - i) * 8) (word_of_int t :: 64 word) AND 0xff)"
  by (simp add: timeToBytes_def Let_def del: upt_conv_Cons)

text \<open>Byte \<open>i\<close> holds the eight bits at its place, and adding it restores them.\<close>

lemma stamp_byte:
  fixes w :: "64 word"
  assumes "n \<le> 56"
  shows "push_bit n (ucast (ucast (signed_drop_bit n w AND 0xff) :: byte)) = push_bit n (take_bit 8 (drop_bit n w))"
proof -
  have "ucast (ucast (signed_drop_bit n w AND 0xff) :: byte) = (take_bit 8 (drop_bit n w) :: 64 word)"
  proof (rule bit_word_eqI)
    fix k assume "k < LENGTH(64)"
    have "bit (0xff :: 64 word) k \<longleftrightarrow> k < 8"
    proof -
      have "(0xff :: 64 word) = mask 8" by (simp add: mask_eq_exp_minus_1)
      then show ?thesis by (simp only: bit_mask_iff) auto
    qed
    then show "bit (ucast (ucast (signed_drop_bit n w AND 0xff) :: byte) :: 64 word) k =
        bit (take_bit 8 (drop_bit n w)) k"
      using assms by (auto simp: bit_simps)
  qed
  then show ?thesis by simp
qed

lemma stamp_step:
  fixes w :: "64 word"
  shows "push_bit (n + 8) (drop_bit (n + 8) w) + push_bit n (take_bit 8 (drop_bit n w)) = push_bit n (drop_bit n w)"
proof -
  let ?v = "drop_bit n w"
  have "push_bit n (push_bit 8 (drop_bit 8 ?v)) + push_bit n (take_bit 8 ?v) = push_bit n ?v"
    by (simp only: bits_ident flip: push_bit_add)
  then show ?thesis by (simp add: add.commute)
qed

lemma sum_bytes_timeToBytes:
  "sum_bytes (timeToBytes t) [0..<8] 0 = Inr (word_of_int t)"
proof -
  let ?w = "word_of_int t :: 64 word"
  have z: "push_bit 64 (drop_bit 64 ?w) = 0" by (rule bit_word_eqI) (simp add: bit_simps)
  have step: "push_bit (n + 8) (drop_bit (n + 8) ?w) +
      push_bit n (ucast (ucast (signed_drop_bit n ?w AND 0xff) :: byte)) = push_bit n (drop_bit n ?w)"
    if "n \<le> 56" for n
    using that by (simp only: stamp_byte stamp_step)
  show ?thesis
    using step [of 56] step [of 48] step [of 40] step [of 32] step [of 24] step [of 16] step [of 8] step [of 0]
    by (simp add: upt_rec index_def nth_timeToBytes z)
qed

text \<open>
  What comes back is the stamp as an \<^verbatim>\<open>int64\<close> of nanoseconds: the stamp itself for every instant
  from 1677 to 2262.
\<close>

lemma bytesToTime_timeToBytes: "bytesToTime (timeToBytes t) = Inr (i64 t)"
proof -
  have "sint (word_of_int t :: 64 word) = i64 t"
    by (simp add: int_word_sint i64_def)
  then show ?thesis
    by (simp add: bytesToTime_def sum_bytes_timeToBytes time_Unix_def sdiv_mult_smod_eq)
qed

lemma sum_bytes_total: "(\<And>i. i \<in> set is \<Longrightarrow> i < length b) \<Longrightarrow> \<exists>w. sum_bytes b is acc = Inr w"
  by (induction "is" arbitrary: acc) (simp_all add: index_def)

lemma bytesToTime_total: "8 \<le> length b \<Longrightarrow> \<exists>t. bytesToTime b = Inr t"
  using sum_bytes_total [of "[0..<8]" b 0] by (auto simp: bytesToTime_def)

text \<open>What a stamp's writer and its reader agree on.\<close>

locale stamp_codec =
  fixes enc :: "time \<Rightarrow> byte list"
    and dec :: "byte list \<Rightarrow> time go"
    and width :: nat
    and canon :: "time \<Rightarrow> time"
  assumes length_enc: "length (enc t) = width"
    and dec_enc: "dec (enc t) = Inr (canon t)"
    and dec_total: "length b = width \<Longrightarrow> \<exists>t. dec b = Inr t"
begin

text \<open>Reading the head of a payload gives the stamp its sender put there.\<close>

lemma dec_head: "go_bind (slice 0 width (enc t @ rest)) dec = Inr (canon t)"
  using slice_prefix [of "enc t" rest] by (simp add: length_enc dec_enc)

text \<open>Any payload at least as long as a stamp can be read.\<close>

lemma dec_head_total: "width \<le> length b \<Longrightarrow> \<exists>t. go_bind (slice 0 width b) dec = Inr t"
  using dec_total [of "take width b"] by (simp add: slice_def)

text \<open>Two stamps with the same bytes are stamps of the same canonical instant.\<close>

lemma enc_inj: "enc t = enc u \<Longrightarrow> canon t = canon u"
  using dec_enc [of t] dec_enc [of u] by simp

end

interpretation stamp: stamp_codec timeToBytes bytesToTime 8 i64
  by unfold_locales (simp_all add: bytesToTime_timeToBytes bytesToTime_total)

section \<open>The IPv4 header\<close>

text \<open>
  \<^verbatim>\<open>stripIPv4Header(n, b)\<close> returns the remaining byte count and shifts \<^verbatim>\<open>b\<close> in place
  (\<^verbatim>\<open>copy(b, b[l:])\<close>): the slice keeps its length, and its last \<open>l\<close> bytes stay as they were.
\<close>

definition ihl :: "byte list \<Rightarrow> nat" where
  "ihl b = nat (uint (push_bit 2 (ucast (b ! 0 AND 0x0f) :: 64 word)))"

definition stripIPv4Header :: "int \<Rightarrow> byte list \<Rightarrow> int \<times> byte list" where
  "stripIPv4Header n b =
     (if length b < 20 then (n, b)
      else let l = ihl b
           in if 20 > l \<or> l > length b then (n, b)
              else if drop_bit 4 (b ! 0) \<noteq> 4 then (n, b)
              else (i64 (n - int l), drop l b @ drop (length b - l) b))"

lemma length_stripIPv4Header: "length (snd (stripIPv4Header n b)) = length b"
  by (simp add: stripIPv4Header_def Let_def)

text \<open>A buffer that does not start with the version nibble 4 is left alone.\<close>

lemma stripIPv4Header_no_header:
  "drop_bit 4 (b ! 0) \<noteq> 4 \<Longrightarrow> stripIPv4Header n b = (n, b)"
  by (simp add: stripIPv4Header_def Let_def)

text \<open>With a header of \<open>l\<close> bytes in front, the message moves to the start of the buffer.\<close>

lemma stripIPv4Header_header:
  assumes "drop_bit 4 (b ! 0) = 4" "ihl b = length h" "20 \<le> length h" "b = h @ m"
  shows "stripIPv4Header n b = (i64 (n - int (length h)), m @ drop (length m) b)"
  using assms by (simp add: stripIPv4Header_def Let_def)

text \<open>A number below 65536 in two bytes of network order.\<close>

lemma two_bytes_split:
  assumes "0 \<le> i" "i \<le> 65535"
  shows "256 * uint (word_of_int (i div 256) :: byte) + uint (word_of_int i :: byte) = i"
proof -
  have "i div 256 mod 256 = i div 256" using assms by (intro mod_pos_pos_trivial) simp_all
  then show ?thesis using mult_div_mod_eq [of 256 i] by (simp add: uint_word_of_int)
qed

end
