(* ===== verification/Float64.thy ===== *)
theory Float64
  imports Go_Prelude "HOL-Library.Log_Nat"
begin

text \<open>
  Go's \<^verbatim>\<open>float64\<close>, which the round-trip statistics are computed in: IEEE 754 binary64
  with rounding to nearest, ties to even, as exact rationals that are rounded after every
  operation. The two zeros are one value and there is one NaN, since the code never
  inspects either. \<^verbatim>\<open>math.Sqrt\<close> is correctly rounded. The definitions compute on
  numerals (the collection \<open>float_eval\<close>). The lemmas are the ones the statistics need: rounding is monotone, leaves
  53-bit integers and powers of two alone, and keeps signs.
\<close>

section \<open>Rounding to 53 bits\<close>

abbreviation pow2 :: "int \<Rightarrow> rat" where
  "pow2 e \<equiv> 2 powi e"

text \<open>The exponent \<open>k\<close> with \<open>2 ^ k \<le> x < 2 ^ (k + 1)\<close>, for a positive \<open>x\<close>.\<close>

definition ilog2 :: "rat \<Rightarrow> int" where
  "ilog2 x = (if 1 \<le> x then bitlen \<lfloor>x\<rfloor> - 1 else - bitlen (\<lceil>1 / x\<rceil> - 1))"

text \<open>Nearest integer, a tie to the even one.\<close>

definition rne :: "rat \<Rightarrow> int" where
  "rne y = (let f = \<lfloor>y\<rfloor>; d = y - of_int f in
     if d < 1 / 2 then f else if 1 / 2 < d then f + 1 else if even f then f else f + 1)"

text \<open>The exponent of the last place of \<open>x\<close>: 53 significant bits, fewer below \<open>2 ^ (-1022)\<close>.\<close>

definition last_place :: "rat \<Rightarrow> int" where
  "last_place x = max (ilog2 \<bar>x\<bar> - 52) (- 1074)"

definition rnd :: "rat \<Rightarrow> rat" where
  "rnd x = (if x = 0 then 0 else of_int (rne (x / pow2 (last_place x))) * pow2 (last_place x))"

section \<open>The operations the code uses\<close>

datatype float64 = NaN | PInf | NInf | Fin rat

text \<open>A rounded value from \<open>2 ^ 1024\<close> on overflows.\<close>

definition clip :: "rat \<Rightarrow> float64" where
  "clip r = (if r = 0 \<or> ilog2 \<bar>r\<bar> < 1024 then Fin r else if 0 < r then PInf else NInf)"

definition to_float :: "rat \<Rightarrow> float64" where
  "to_float x = clip (rnd x)"

definition f64_of_int :: "int \<Rightarrow> float64" where
  "f64_of_int n = to_float (of_int n)"

fun f64_add :: "float64 \<Rightarrow> float64 \<Rightarrow> float64" where
  "f64_add (Fin x) (Fin y) = to_float (x + y)"
| "f64_add NaN _ = NaN"
| "f64_add _ NaN = NaN"
| "f64_add PInf NInf = NaN"
| "f64_add NInf PInf = NaN"
| "f64_add PInf _ = PInf"
| "f64_add _ PInf = PInf"
| "f64_add NInf _ = NInf"
| "f64_add _ NInf = NInf"

text \<open>The sign of a value that is not NaN.\<close>

fun f64_sgn :: "float64 \<Rightarrow> int" where
  "f64_sgn (Fin x) = (if 0 < x then 1 else if x < 0 then - 1 else 0)"
| "f64_sgn PInf = 1"
| "f64_sgn NInf = - 1"
| "f64_sgn NaN = 0"

definition f64_inf :: "int \<Rightarrow> float64" where
  "f64_inf s = (if 0 < s then PInf else if s < 0 then NInf else NaN)"

fun f64_mul :: "float64 \<Rightarrow> float64 \<Rightarrow> float64" where
  "f64_mul (Fin x) (Fin y) = to_float (x * y)"
| "f64_mul NaN _ = NaN"
| "f64_mul _ NaN = NaN"
| "f64_mul x y = f64_inf (f64_sgn x * f64_sgn y)"

fun f64_div :: "float64 \<Rightarrow> float64 \<Rightarrow> float64" where
  "f64_div (Fin x) (Fin y) = (if y = 0 then f64_inf (f64_sgn (Fin x)) else to_float (x / y))"
| "f64_div NaN _ = NaN"
| "f64_div _ NaN = NaN"
| "f64_div (Fin x) _ = Fin 0"
| "f64_div x (Fin y) = f64_inf (f64_sgn x * (if y < 0 then - 1 else 1))"
| "f64_div _ _ = NaN"

text \<open>The integer square root, and the correctly rounded one.\<close>

definition sqrt_bit :: "int \<Rightarrow> int \<Rightarrow> int" where
  "sqrt_bit r n = (if (2 * r + 1) * (2 * r + 1) \<le> n then 2 * r + 1 else 2 * r)"

function isqrt :: "int \<Rightarrow> int" where
  "isqrt n = (if n \<le> 0 then 0 else sqrt_bit (isqrt (n div 4)) n)"
  by pat_completeness auto
termination
  by (relation "measure nat") auto

declare isqrt.simps [simp del]

definition sqrt_place :: "rat \<Rightarrow> int" where
  "sqrt_place x = ilog2 x div 2 - 52"

definition round_root :: "int \<Rightarrow> rat \<Rightarrow> int" where
  "round_root r y = (if y < of_int (r * r + r) + 1 / 4 then r
     else if of_int (r * r + r) + 1 / 4 < y then r + 1 else if even r then r else r + 1)"

definition sqrt_rne :: "rat \<Rightarrow> int" where
  "sqrt_rne y = round_root (isqrt \<lfloor>y\<rfloor>) y"

definition scaled_sqrt :: "int \<Rightarrow> rat \<Rightarrow> float64" where
  "scaled_sqrt q x = to_float (of_int (sqrt_rne (x / pow2 (2 * q))) * pow2 q)"

fun f64_sqrt :: "float64 \<Rightarrow> float64" where
  "f64_sqrt (Fin x) =
     (if x < 0 then NaN
      else if x = 0 then Fin 0
      else scaled_sqrt (sqrt_place x) x)"
| "f64_sqrt PInf = PInf"
| "f64_sqrt _ = NaN"

text \<open>
  Conversion to \<^verbatim>\<open>int64\<close> truncates. What it gives out of range is left to the implementation
  by the language; on amd64 it is the least \<^verbatim>\<open>int64\<close>.
\<close>

fun f64_to_i64 :: "float64 \<Rightarrow> int" where
  "f64_to_i64 (Fin x) =
     (let t = (if 0 \<le> x then \<lfloor>x\<rfloor> else \<lceil>x\<rceil>) in if is_i64 t then t else - (2 ^ 63))"
| "f64_to_i64 _ = - (2 ^ 63)"

fun f64_max :: "float64 \<Rightarrow> float64 \<Rightarrow> float64" where
  "f64_max PInf _ = PInf"
| "f64_max _ PInf = PInf"
| "f64_max NaN _ = NaN"
| "f64_max _ NaN = NaN"
| "f64_max NInf y = y"
| "f64_max x NInf = x"
| "f64_max (Fin x) (Fin y) = Fin (max x y)"

section \<open>Lemmas on rounding\<close>

lemma pow2_pos [simp]: "0 < pow2 e"
  by simp

lemma pow2_le: "a \<le> b \<Longrightarrow> pow2 a \<le> pow2 b"
  by (rule power_int_increasing) simp_all

lemma pow2_less: "a < b \<Longrightarrow> pow2 a < pow2 b"
  by (rule power_int_strict_increasing) simp_all

lemma pow2_less_iff: "pow2 a < pow2 b \<longleftrightarrow> a < b"
  by (metis pow2_less pow2_le linorder_not_less)

lemma pow2_add: "pow2 (a + b) = pow2 a * pow2 b"
  by (simp add: power_int_add)

lemma pow2_split: "pow2 a = pow2 (a - b) * pow2 b"
  using pow2_add [of "a - b" b] by simp

lemma pow2_nat: "0 \<le> a \<Longrightarrow> pow2 a = of_int (2 ^ nat a)"
  by (simp add: power_int_def)

lemma ilog2_bounds:
  assumes "0 < x"
  shows "pow2 (ilog2 x) \<le> x" and "x < pow2 (ilog2 x + 1)"
proof -
  have "pow2 (ilog2 x) \<le> x \<and> x < pow2 (ilog2 x + 1)"
  proof (cases "1 \<le> x")
    case True
    let ?k = "bitlen \<lfloor>x\<rfloor>"
    have "1 \<le> \<lfloor>x\<rfloor>" using True by simp
    then have k: "1 \<le> ?k" and b: "2 ^ nat (?k - 1) \<le> \<lfloor>x\<rfloor>" "\<lfloor>x\<rfloor> < 2 ^ nat ?k"
      using bitlen_bounds [of "\<lfloor>x\<rfloor>"] bitlen_ge_iff_power [of 1 "\<lfloor>x\<rfloor>"] by simp_all
    from b(1) have "pow2 (?k - 1) \<le> x"
      using k by (simp add: pow2_nat le_floor_iff)
    moreover from b(2) have "x < pow2 ?k"
      using k by (simp add: pow2_nat floor_less_iff)
    ultimately show ?thesis using True by (simp add: ilog2_def)
  next
    case False
    let ?m = "\<lceil>1 / x\<rceil> - 1" and ?k = "bitlen (\<lceil>1 / x\<rceil> - 1)"
    have "1 < 1 / x" using assms False by (simp add: field_simps)
    then have "2 \<le> \<lceil>1 / x\<rceil>" by (metis one_less_ceiling int_one_le_iff_zero_less zless_iff_Suc_zadd
        add_le_cancel_right less_iff_succ_less_eq one_add_one zle_add1_eq_le)
    then have m: "1 \<le> ?m" by simp
    then have k: "1 \<le> ?k" and b: "2 ^ nat (?k - 1) \<le> ?m" "?m < 2 ^ nat ?k"
      using bitlen_bounds [of ?m] bitlen_ge_iff_power [of 1 ?m] by simp_all
    from b(2) have "\<lceil>1 / x\<rceil> \<le> 2 ^ nat ?k" by simp
    then have "1 / x \<le> pow2 ?k" using k by (simp add: pow2_nat ceiling_le_iff)
    then have lo: "pow2 (- ?k) \<le> x"
      using assms by (simp add: power_int_minus field_simps)
    from b(1) have "2 ^ nat (?k - 1) < \<lceil>1 / x\<rceil>" by simp
    then have "pow2 (?k - 1) < 1 / x" using k by (simp add: pow2_nat less_ceiling_iff)
    then have "x < 1 / pow2 (?k - 1)" using assms by (simp add: field_simps)
    also have "\<dots> = pow2 (- ?k + 1)"
      by (metis power_int_minus_divide minus_diff_eq uminus_add_conv_diff)
    finally show ?thesis using lo False by (simp add: ilog2_def)
  qed
  then show "pow2 (ilog2 x) \<le> x" "x < pow2 (ilog2 x + 1)" by simp_all
qed

lemma ilog2_less: "0 < x \<Longrightarrow> x < pow2 k \<Longrightarrow> ilog2 x < k"
  using ilog2_bounds(1) [of x] pow2_less_iff [of "ilog2 x" k] by (meson order_le_less_trans)

lemma ilog2_ge: "0 < x \<Longrightarrow> pow2 k \<le> x \<Longrightarrow> k \<le> ilog2 x"
  using ilog2_bounds(2) [of x] pow2_less_iff [of k "ilog2 x + 1"] by (fastforce dest: order_le_less_trans)

lemma ilog2_mono: "0 < x \<Longrightarrow> x \<le> y \<Longrightarrow> ilog2 x \<le> ilog2 y"
  using ilog2_bounds(1) [of x] by (intro ilog2_ge) auto

lemma rne_of_int [simp]: "rne (of_int n) = n"
  by (simp add: rne_def)

lemma rne_mono: "x \<le> y \<Longrightarrow> rne x \<le> rne y"
proof -
  assume le: "x \<le> y"
  then have f: "\<lfloor>x\<rfloor> \<le> \<lfloor>y\<rfloor>" by (rule floor_mono)
  show ?thesis
  proof (cases "\<lfloor>x\<rfloor> = \<lfloor>y\<rfloor>")
    case True
    then show ?thesis using le by (auto simp: rne_def Let_def)
  next
    case False
    then have "\<lfloor>x\<rfloor> + 1 \<le> \<lfloor>y\<rfloor>" using f by simp
    then show ?thesis by (auto simp: rne_def Let_def)
  qed
qed

lemma rne_le_int: "x \<le> of_int n \<Longrightarrow> rne x \<le> n"
  using rne_mono [of x "of_int n"] by simp

lemma rne_ge_int: "of_int n \<le> x \<Longrightarrow> n \<le> rne x"
  using rne_mono [of "of_int n" x] by simp

lemma rne_minus: "rne (- x) = - rne x"
proof (cases "x = of_int \<lfloor>x\<rfloor>")
  case True
  then obtain n where "x = of_int n" by blast
  then show ?thesis by (simp flip: of_int_minus)
next
  case False
  have fl: "\<lfloor>- x\<rfloor> = - \<lfloor>x\<rfloor> - 1"
  proof (rule floor_unique)
    show "of_int (- \<lfloor>x\<rfloor> - 1) \<le> - x" using of_int_floor_le [of x] by (simp, linarith)
    show "- x < of_int (- \<lfloor>x\<rfloor> - 1) + 1"
      using of_int_floor_le [of x] False by (simp add: less_le)
  qed
  have "even (- \<lfloor>x\<rfloor> - 1) \<longleftrightarrow> odd \<lfloor>x\<rfloor>" by simp
  then show ?thesis unfolding rne_def Let_def fl by (auto split: if_splits)
qed

lemma last_place_mono: "0 < x \<Longrightarrow> x \<le> y \<Longrightarrow> last_place x \<le> last_place y"
  using ilog2_mono [of x y] by (simp add: last_place_def max_def)

lemma rnd_0 [simp]: "rnd 0 = 0"
  by (simp add: rnd_def)

lemma rnd_minus: "rnd (- x) = - rnd x"
proof -
  have "last_place (- x) = last_place x" by (simp add: last_place_def)
  then show ?thesis using rne_minus [of "x / pow2 (last_place x)"] by (simp add: rnd_def)
qed

lemma rnd_nonneg: "0 \<le> x \<Longrightarrow> 0 \<le> rnd x"
  using rne_ge_int [of 0 "x / pow2 (last_place x)"] by (simp add: rnd_def)

text \<open>A multiple of the last place is left alone.\<close>

lemma rnd_multiple: "x = of_int n * pow2 (last_place x) \<Longrightarrow> rnd x = x"
proof -
  assume x: "x = of_int n * pow2 (last_place x)"
  then have "x / pow2 (last_place x) = of_int n"
    by (metis nonzero_mult_div_cancel_right pow2_pos less_irrefl)
  then show ?thesis using x by (simp add: rnd_def)
qed

lemma rnd_exact_pos:
  assumes "0 < m" "m < 2 ^ 53" "- 1074 \<le> e" and x: "x = of_int m * pow2 e"
  shows "rnd x = x"
proof (rule rnd_multiple)
  have pos: "0 < x" using assms by simp
  have "of_int m < pow2 53" using assms(2) by (simp flip: of_int_power)
  then have "x < pow2 53 * pow2 e" unfolding x by simp
  then have "ilog2 x < 53 + e" using pos by (intro ilog2_less) (simp_all add: pow2_add)
  then have "last_place x \<le> e" using pos assms(3) by (simp add: last_place_def)
  then have "pow2 e = of_int (2 ^ nat (e - last_place x)) * pow2 (last_place x)"
    using pow2_split [of e "last_place x"] by (simp add: pow2_nat)
  then show "x = of_int (m * 2 ^ nat (e - last_place x)) * pow2 (last_place x)"
    unfolding x by simp
qed

lemma rnd_pow2: "- 1074 \<le> e \<Longrightarrow> rnd (pow2 e) = pow2 e"
  by (rule rnd_exact_pos [of 1 e]) simp_all

lemma rnd_exact:
  assumes "0 \<le> m" "m \<le> 2 ^ 53" "- 1074 \<le> e"
  shows "rnd (of_int m * pow2 e) = of_int m * pow2 e"
proof -
  consider "m = 0" | "m = 2 ^ 53" | "0 < m" "m < 2 ^ 53" using assms by linarith
  then show ?thesis
  proof cases
    case 2
    then have "of_int m * pow2 e = pow2 (53 + e)" by (simp add: pow2_add)
    then show ?thesis using assms(3) rnd_pow2 [of "53 + e"] by simp
  qed (use assms rnd_exact_pos [of m e] in simp_all)
qed

lemma rnd_of_int: "\<bar>n\<bar> \<le> 2 ^ 53 \<Longrightarrow> rnd (of_int n) = of_int n"
  using rnd_exact [of n 0] rnd_exact [of "- n" 0] rnd_minus [of "of_int n"]
  by (cases "0 \<le> n") simp_all

text \<open>Rounding is monotone: within a binade because \<open>rne\<close> is, across because it cannot cross a power of two.\<close>

lemma rnd_mono_pos:
  assumes "0 < x" "x \<le> y"
  shows "rnd x \<le> rnd y"
proof (cases "last_place x = last_place y")
  case True
  have "rne (x / pow2 (last_place y)) \<le> rne (y / pow2 (last_place y))"
    using assms by (intro rne_mono divide_right_mono) simp_all
  then show ?thesis using assms True by (simp add: rnd_def)
next
  case False
  let ?qx = "last_place x" and ?qy = "last_place y" and ?k = "ilog2 y"
  have q: "?qx < ?qy" using False last_place_mono [OF assms] by simp
  then have qy: "?qy = ?k - 52" and qk: "?qx < ?k - 52" and lt: "ilog2 x < ?k"
    using assms by (auto simp: last_place_def)
  have z: "pow2 ?k = of_int (2 ^ nat (?k - ?qx)) * pow2 ?qx"
    using pow2_split [of ?k ?qx] qk by (simp add: pow2_nat)
  have "x < pow2 (ilog2 x + 1)" using assms(1) by (rule ilog2_bounds(2))
  also have "\<dots> \<le> pow2 ?k" using lt by (intro pow2_le) simp
  finally have "x / pow2 ?qx \<le> of_int (2 ^ nat (?k - ?qx))" unfolding z by (simp add: field_simps)
  then have "rne (x / pow2 ?qx) \<le> 2 ^ nat (?k - ?qx)" by (rule rne_le_int)
  then have "(of_int (rne (x / pow2 ?qx)) :: rat) \<le> of_int (2 ^ nat (?k - ?qx))"
    by (simp only: of_int_le_iff)
  then have lo: "rnd x \<le> pow2 ?k" unfolding z using assms(1) by (simp add: rnd_def)
  have pk: "pow2 ?k = pow2 52 * pow2 ?qy"
    using pow2_add [of 52 "?k - 52"] unfolding qy by simp
  have "pow2 52 * pow2 ?qy \<le> y"
    using ilog2_bounds(1) [of y] assms unfolding pk by simp
  then have "of_int (2 ^ 52) \<le> y / pow2 ?qy" by (simp add: field_simps)
  then have "2 ^ 52 \<le> rne (y / pow2 ?qy)" by (rule rne_ge_int)
  then have "(of_int (2 ^ 52) :: rat) \<le> of_int (rne (y / pow2 ?qy))"
    by (simp only: of_int_le_iff)
  then have "pow2 52 * pow2 ?qy \<le> rnd y" using assms by (simp add: rnd_def)
  then have "pow2 ?k \<le> rnd y" unfolding pk .
  with lo show ?thesis by simp
qed

lemma rnd_mono: "0 \<le> x \<Longrightarrow> x \<le> y \<Longrightarrow> rnd x \<le> rnd y"
  using rnd_mono_pos [of x y] rnd_nonneg [of y] by (cases "x = 0") simp_all

lemma rnd_le_exact:
  assumes "0 \<le> x" "x \<le> of_int m * pow2 e" "m \<le> 2 ^ 53" "- 1074 \<le> e"
  shows "rnd x \<le> of_int m * pow2 e"
proof -
  have "0 \<le> of_int m * pow2 e" using assms(1,2) by simp
  then have "0 \<le> m" using pow2_pos [of e] by (auto simp: zero_le_mult_iff simp del: pow2_pos)
  then show ?thesis using rnd_mono [OF assms(1,2)] rnd_exact [of m e] assms(3,4) by simp
qed

lemma rnd_le_pow2: "0 \<le> x \<Longrightarrow> x \<le> pow2 e \<Longrightarrow> - 1074 \<le> e \<Longrightarrow> rnd x \<le> pow2 e"
  using rnd_le_exact [of x 1 e] by simp

lemma rnd_ge_exact:
  "0 \<le> m \<Longrightarrow> of_int m * pow2 e \<le> x \<Longrightarrow> m \<le> 2 ^ 53 \<Longrightarrow> - 1074 \<le> e \<Longrightarrow> of_int m * pow2 e \<le> rnd x"
  using rnd_mono [of "of_int m * pow2 e" x] rnd_exact [of m e] by simp

lemma rnd_pos: "0 < x \<Longrightarrow> pow2 (- 1074) \<le> x \<Longrightarrow> 0 < rnd x"
  using rnd_ge_exact [of 1 "- 1074" x] pow2_pos [of "- 1074"] by (simp del: pow2_pos)

section \<open>Lemmas on the operations\<close>

lemma clip_Fin: "\<bar>r\<bar> \<le> pow2 1023 \<Longrightarrow> clip r = Fin r"
proof (cases "r = 0")
  case False
  assume "\<bar>r\<bar> \<le> pow2 1023"
  then have "\<bar>r\<bar> < pow2 1024" using pow2_less [of 1023 1024] by linarith
  then have "ilog2 \<bar>r\<bar> < 1024" using False by (intro ilog2_less) simp_all
  then show ?thesis by (simp add: clip_def)
qed (simp add: clip_def)

lemma to_float_Fin: "0 \<le> x \<Longrightarrow> x \<le> pow2 1023 \<Longrightarrow> to_float x = Fin (rnd x)"
  using rnd_le_pow2 [of x 1023] rnd_nonneg [of x] by (simp add: to_float_def clip_Fin)

lemma f64_of_int_Fin: "\<bar>n\<bar> \<le> 2 ^ 63 \<Longrightarrow> f64_of_int n = Fin (rnd (of_int n))"
proof -
  assume n: "\<bar>n\<bar> \<le> 2 ^ 63"
  then have "of_int \<bar>n\<bar> \<le> pow2 63" by (simp flip: of_int_abs of_int_power add: of_int_le_numeral_iff)
  then have "rnd (of_int \<bar>n\<bar>) \<le> pow2 63" by (intro rnd_le_pow2) simp_all
  moreover have "0 \<le> rnd (of_int \<bar>n\<bar>)" by (rule rnd_nonneg) simp
  moreover have "pow2 63 \<le> pow2 1023" by (rule pow2_le) simp
  ultimately have "\<bar>rnd (of_int n)\<bar> \<le> pow2 1023"
    using rnd_minus [of "of_int n"] by (simp add: abs_if split: if_splits)
  then show ?thesis by (simp add: f64_of_int_def to_float_def clip_Fin)
qed

lemma isqrt_spec: "0 \<le> n \<Longrightarrow> 0 \<le> isqrt n \<and> isqrt n * isqrt n \<le> n \<and> n < (isqrt n + 1) * (isqrt n + 1)"
proof (induction n rule: isqrt.induct)
  case (1 n)
  show ?case
  proof (cases "n \<le> 0")
    case True
    then have "n = 0" using "1.prems" by simp
    then show ?thesis by (simp add: isqrt.simps [of 0])
  next
    case False
    let ?s = "isqrt (n div 4)"
    have s: "0 \<le> ?s" "?s * ?s \<le> n div 4" "n div 4 < (?s + 1) * (?s + 1)" using 1 False by simp_all
    then have "4 * (?s * ?s) \<le> n" "n < 4 * ((?s + 1) * (?s + 1))" by linarith+
    then show ?thesis using False s(1)
      by (auto simp: isqrt.simps [of n] sqrt_bit_def algebra_simps)
  qed
qed

lemma sqrt_rne_le:
  assumes "0 \<le> y" "y \<le> of_int (M * M)" "0 \<le> M"
  shows "sqrt_rne y \<le> M"
proof -
  define r where "r = isqrt \<lfloor>y\<rfloor>"
  have r: "0 \<le> r" "r * r \<le> \<lfloor>y\<rfloor>" using isqrt_spec [of "\<lfloor>y\<rfloor>"] assms(1) unfolding r_def by simp_all
  have "\<lfloor>y\<rfloor> \<le> M * M" using assms(2) by (metis floor_mono floor_of_int)
  then have "r * r \<le> M * M" using r(2) by simp
  then have rM: "r \<le> M" using assms(3) r(1) by (metis abs_le_square_iff abs_of_nonneg power2_eq_square)
  show ?thesis
  proof (cases "r = M")
    case True
    have "y \<le> of_int M * of_int M" "0 \<le> (of_int M :: rat)" using assms(2,3) by simp_all
    then have "y < of_int M * of_int M + of_int M + 1 / 4" by linarith
    then show ?thesis using True unfolding r_def by (simp add: sqrt_rne_def round_root_def)
  next
    case False
    then show ?thesis using rM unfolding r_def by (simp add: sqrt_rne_def round_root_def)
  qed
qed

lemma sqrt_rne_nonneg: "0 \<le> y \<Longrightarrow> 0 \<le> sqrt_rne y"
  using isqrt_spec [of "\<lfloor>y\<rfloor>"] by (simp add: sqrt_rne_def round_root_def)

text \<open>\<open>sqrt_rne\<close> is a nearest integer to the square root: its square root lies within a half of it.\<close>

lemma sqrt_rne_nearest:
  assumes "0 \<le> y" "s = of_int (sqrt_rne y)"
  shows "y \<le> (s + 1 / 2) * (s + 1 / 2)" and "0 < s \<Longrightarrow> (s - 1 / 2) * (s - 1 / 2) \<le> y"
proof -
  define r where "r = isqrt \<lfloor>y\<rfloor>"
  have r: "0 \<le> r" "r * r \<le> \<lfloor>y\<rfloor>" "\<lfloor>y\<rfloor> < (r + 1) * (r + 1)"
    using isqrt_spec [of "\<lfloor>y\<rfloor>"] assms(1) unfolding r_def by simp_all
  then have lo: "of_int (r * r) \<le> y" and hi: "y < of_int ((r + 1) * (r + 1))"
    by (simp_all only: le_floor_iff floor_less_iff)
  have r0: "0 \<le> (of_int r :: rat)" using r(1) by simp
  have s: "s = of_int (round_root r y)" using assms(2) by (simp add: sqrt_rne_def r_def)
  show "y \<le> (s + 1 / 2) * (s + 1 / 2)"
    using lo hi r0 unfolding s by (auto simp: round_root_def algebra_simps split: if_splits)
  show "0 < s \<Longrightarrow> (s - 1 / 2) * (s - 1 / 2) \<le> y"
    using lo hi r0 unfolding s by (auto simp: round_root_def algebra_simps split: if_splits)
qed

lemma f64_sqrt_bound:
  assumes "0 \<le> x" "x \<le> pow2 (2 * k)" "- 1074 \<le> k" "k \<le> 1023"
  shows "\<exists>r. f64_sqrt (Fin x) = Fin r \<and> 0 \<le> r \<and> r \<le> pow2 k"
proof (cases "x = 0")
  case False
  then have pos: "0 < x" using assms(1) by simp
  define q where "q = sqrt_place x"
  have "ilog2 x < 2 * k + 1"
    using assms(2) pow2_less [of "2 * k" "2 * k + 1"] by (intro ilog2_less [OF pos]) linarith
  then have qk: "0 \<le> k - q" by (simp add: q_def sqrt_place_def)
  let ?M = "2 ^ nat (k - q) :: int" and ?y = "x / pow2 (2 * q)"
  have "pow2 (2 * k) = of_int (?M * ?M) * pow2 (2 * q)"
    using qk pow2_split [of "2 * k" "2 * q"] pow2_add [of "k - q" "k - q"]
    by (simp add: pow2_nat algebra_simps)
  then have "?y \<le> of_int (?M * ?M)" using assms(2) by (simp add: field_simps)
  moreover have "0 \<le> ?y" using pos by simp
  ultimately have "sqrt_rne ?y \<le> ?M" by (intro sqrt_rne_le) simp_all
  then have "(of_int (sqrt_rne ?y) :: rat) \<le> of_int ?M" by (simp only: of_int_le_iff)
  then have "of_int (sqrt_rne ?y) * pow2 q \<le> of_int ?M * pow2 q" by (intro mult_right_mono) simp_all
  also have "\<dots> = pow2 k" using qk pow2_split [of k q] by (simp add: pow2_nat)
  finally have s: "of_int (sqrt_rne ?y) * pow2 q \<le> pow2 k" .
  have s0: "0 \<le> of_int (sqrt_rne ?y) * pow2 q" using sqrt_rne_nonneg [of ?y] pos by simp
  have "to_float (of_int (sqrt_rne ?y) * pow2 q) = Fin (rnd (of_int (sqrt_rne ?y) * pow2 q))"
    using s s0 pow2_le [OF assms(4)] by (intro to_float_Fin) linarith+
  then show ?thesis
    using rnd_le_pow2 [OF s0 s assms(3)] rnd_nonneg [OF s0] pos by (simp add: q_def scaled_sqrt_def)
qed simp

lemma f64_to_i64_bound:
  assumes "0 \<le> x" "x \<le> of_int n" "is_i64 n"
  shows "0 \<le> f64_to_i64 (Fin x)" "f64_to_i64 (Fin x) \<le> n"
proof -
  have "0 \<le> \<lfloor>x\<rfloor>" "\<lfloor>x\<rfloor> \<le> n"
    using assms by (auto simp: floor_le_iff)
  then show "0 \<le> f64_to_i64 (Fin x)" "f64_to_i64 (Fin x) \<le> n"
    using assms by (simp_all add: Let_def is_i64_def)
qed

section \<open>Evaluation\<close>

text \<open>
  Rewrite rules that compute the operations on numerals with the simplifier alone. (The code
  equations of \<open>rat\<close> normalise only under \<open>quotient_of\<close>, so \<open>code_simp\<close> is slow here.)
\<close>

named_theorems float_eval \<open>rules that evaluate float64 operations on numerals\<close>

lemma bitlen_numeral [float_eval]:
  "bitlen 1 = 1" "bitlen (numeral Num.One) = 1"
  "bitlen (numeral (Num.Bit0 n)) = bitlen (numeral n) + 1"
  "bitlen (numeral (Num.Bit1 n)) = bitlen (numeral n) + 1"
  by (subst compute_bitlen, simp)+

lemma floor_fraction [float_eval]:
  "\<lfloor>numeral a / numeral b :: rat\<rfloor> = numeral a div numeral b"
  "\<lfloor>1 / numeral b :: rat\<rfloor> = 1 div numeral b"
  "\<lceil>numeral a / numeral b :: rat\<rceil> = - ((- numeral a) div numeral b)"
  using floor_divide_of_int_eq [of "numeral a" "numeral b", where 'a = rat]
    floor_divide_of_int_eq [of 1 "numeral b", where 'a = rat]
    floor_divide_of_int_eq [of "- numeral a" "numeral b", where 'a = rat]
  by (simp_all add: ceiling_def)

lemma isqrt_numeral [float_eval]:
  "isqrt 0 = 0" "isqrt 1 = sqrt_bit 0 1"
  "isqrt (numeral n) = sqrt_bit (isqrt (numeral n div 4)) (numeral n)"
  by (simp_all add: isqrt.simps [of 0] isqrt.simps [of 1] isqrt.simps [of "numeral n"])

declare f64_of_int_def [float_eval] to_float_def [float_eval] clip_def [float_eval]
  rnd_def [float_eval] last_place_def [float_eval] ilog2_def [float_eval] rne_def [float_eval]
  scaled_sqrt_def [float_eval] sqrt_place_def [float_eval] sqrt_rne_def [float_eval]
  round_root_def [float_eval] sqrt_bit_def [float_eval]

end
