(* ===== verification/Logger.thy ===== *)
theory Logger
  imports Net_Addr
begin

text \<open>
  \<^verbatim>\<open>logger.go\<close>: the \<^verbatim>\<open>Logger\<close> interface as a record of its methods, and its two
  implementations. A method's effect is the lines it hands to \<^verbatim>\<open>log.Logger.Printf\<close>: the
  format string and the arguments. No method returns a value or stops the program:
  \<^verbatim>\<open>Fatalf\<close> logs like the others. The locale \<open>quiet_logger\<close> is what the library relies
  on, and both implementations satisfy it.
\<close>

datatype log_arg = ArgError go_error | ArgAddr net_addr

type_synonym log_line = "string \<times> log_arg list"
type_synonym log_method = "string \<Rightarrow> log_arg list \<Rightarrow> log_line list"

record logger =
  Fatalf :: log_method
  Errorf :: log_method
  Warnf :: log_method
  Infof :: log_method
  Debugf :: log_method

definition StdLogger_Fatalf :: log_method where
  "StdLogger_Fatalf format v = [(''FATAL: '' @ format, v)]"

definition StdLogger_Errorf :: log_method where
  "StdLogger_Errorf format v = [(''ERROR: '' @ format, v)]"

definition StdLogger_Warnf :: log_method where
  "StdLogger_Warnf format v = [(''WARN: '' @ format, v)]"

definition StdLogger_Infof :: log_method where
  "StdLogger_Infof format v = [(''INFO: '' @ format, v)]"

definition StdLogger_Debugf :: log_method where
  "StdLogger_Debugf format v = [(''DEBUG: '' @ format, v)]"

definition StdLogger :: logger where
  "StdLogger = \<lparr>Fatalf = StdLogger_Fatalf, Errorf = StdLogger_Errorf, Warnf = StdLogger_Warnf,
     Infof = StdLogger_Infof, Debugf = StdLogger_Debugf\<rparr>"

definition NoopLogger :: logger where
  "NoopLogger = \<lparr>Fatalf = \<lambda>_ _. [], Errorf = \<lambda>_ _. [], Warnf = \<lambda>_ _. [],
     Infof = \<lambda>_ _. [], Debugf = \<lambda>_ _. []\<rparr>"

text \<open>
  \<^verbatim>\<open>logger := p.logger; if logger == nil { logger = NoopLogger{} }\<close>, at the start of
  \<^verbatim>\<open>runLoop\<close> and of every round of an HTTP worker.
\<close>

definition logger_or_noop :: "logger option \<Rightarrow> logger" where
  "logger_or_noop l = (case l of None \<Rightarrow> NoopLogger | Some lg \<Rightarrow> lg)"

definition methods :: "logger \<Rightarrow> log_method list" where
  "methods lg = [Fatalf lg, Errorf lg, Warnf lg, Infof lg, Debugf lg]"

lemmas StdLogger_defs = StdLogger_def StdLogger_Fatalf_def StdLogger_Errorf_def
  StdLogger_Warnf_def StdLogger_Infof_def StdLogger_Debugf_def

locale quiet_logger =
  fixes lg :: logger
  assumes one_line: "m \<in> set (methods lg) \<Longrightarrow> length (m format v) \<le> 1"
    and keeps_message: "m \<in> set (methods lg) \<Longrightarrow> (f, w) \<in> set (m format v) \<Longrightarrow> w = v \<and> (\<exists>level. f = level @ format)"
begin

text \<open>A sequence of calls writes at most one line per call, in the order of the calls.\<close>

lemma calls_bound:
  "(\<And>c. c \<in> set cs \<Longrightarrow> fst c \<in> set (methods lg)) \<Longrightarrow>
   length (concat (map (\<lambda>(m, format, v). m format v) cs)) \<le> length cs"
proof (induction cs)
  case (Cons c cs)
  then have "length ((fst c) (fst (snd c)) (snd (snd c))) \<le> 1"
    by (intro one_line) simp
  with Cons show ?case by (auto simp: case_prod_beta)
qed simp

end

interpretation std: quiet_logger StdLogger
  by unfold_locales (auto simp: methods_def StdLogger_defs)

interpretation noop: quiet_logger NoopLogger
  by unfold_locales (auto simp: methods_def NoopLogger_def)

lemma logger_or_noop_quiet:
  "(\<And>lg. l = Some lg \<Longrightarrow> quiet_logger lg) \<Longrightarrow> quiet_logger (logger_or_noop l)"
  using noop.quiet_logger_axioms by (auto simp: logger_or_noop_def split: option.split)

end
