(* ===== verification/Pinger_State.thy ===== *)
theory Pinger_State
  imports Wire_Codec Float64 Logger
begin

text \<open>
  The data of \<^verbatim>\<open>ping.go\<close>: the structs \<^verbatim>\<open>Pinger\<close>, \<^verbatim>\<open>Packet\<close>, \<^verbatim>\<open>packet\<close>
  and \<^verbatim>\<open>Statistics\<close>, the constructor \<^verbatim>\<open>New\<close>, the setters and getters, and \<^verbatim>\<open>Stop\<close>.
  The type variable \<open>'u\<close> is \<^verbatim>\<open>uuid.UUID\<close>, a third-party type the code only compares,
  marshals and unmarshals. A callback field is the truth value of being set; calling it is an
  \<open>event\<close>. The mutexes have no counterpart: every definition is one critical section.
\<close>

section \<open>Structs\<close>

abbreviation timeSliceLength :: nat where "timeSliceLength \<equiv> 8"
abbreviation trackerLength :: nat where "trackerLength \<equiv> 16"

definition protocolICMP :: int where "protocolICMP = 1"
definition protocolIPv6ICMP :: int where "protocolIPv6ICMP = 58"

definition networkIP :: string where "networkIP = ''ip''"
definition networkIPv4 :: string where "networkIPv4 = ''ip4''"
definition networkIPv6 :: string where "networkIPv6 = ''ip6''"

text \<open>The maps \<^verbatim>\<open>ipv4Proto\<close> and \<^verbatim>\<open>ipv6Proto\<close>; a missing key reads as the empty string.\<close>

definition ipv4Proto :: "string \<Rightarrow> string" where
  "ipv4Proto k = (if k = ''icmp'' then ''ip4:icmp'' else if k = ''udp'' then ''udp4'' else '''')"

definition ipv6Proto :: "string \<Rightarrow> string" where
  "ipv6Proto k = (if k = ''icmp'' then ''ip6:ipv6-icmp'' else if k = ''udp'' then ''udp6'' else '''')"

text \<open>The unexported \<^verbatim>\<open>packet\<close>: a datagram as it was read.\<close>

record raw_packet =
  bytes :: "byte list"
  nbytes :: int
  ttl :: int
  src_addr :: net_addr

text \<open>The exported \<^verbatim>\<open>Packet\<close>, passed to the callbacks.\<close>

record packet_info =
  Rtt :: duration
  IPAddr :: "ip_addr option"
  Addr :: string
  Nbytes :: int
  Seq :: int
  PktTTL :: int
  ID :: int

record statistics =
  st_PacketsRecv :: int
  st_PacketsSent :: int
  st_PacketsRecvDuplicates :: int
  st_PacketLoss :: float64
  st_IPAddr :: "ip_addr option"
  st_Addr :: string
  st_Rtts :: "duration list"
  st_TTLs :: "byte list"
  st_MinRtt :: duration
  st_MaxRtt :: duration
  st_AvgRtt :: duration
  st_StdDevRtt :: duration

text \<open>What the library does that its caller sees: the callbacks it calls and the lines it logs.\<close>

datatype event =
    CallOnSetup
  | CallOnSend packet_info
  | CallOnRecv packet_info
  | CallOnDuplicateRecv packet_info
  | CallOnSendError packet_info go_error
  | CallOnRecvError go_error
  | CallOnFinish statistics
  | LogLine log_line

text \<open>
  The fields of \<^verbatim>\<open>Pinger\<close> in the order of the struct, without its mutexes and
  \<^verbatim>\<open>Debug\<close>, which nothing reads. \<^verbatim>\<open>awaitingSequences\<close> maps a UUID to the set of sequence numbers in
  flight (\<^verbatim>\<open>map[uuid.UUID]map[int]struct{}\<close>).
\<close>

record 'u pinger =
  Interval :: duration
  Timeout :: duration
  ResolveTimeout :: duration
  Count :: int
  PacketsSent :: int
  PacketsRecv :: int
  PacketsRecvDuplicates :: int
  minRtt :: duration
  maxRtt :: duration
  avgRtt :: duration
  stdDevRtt :: duration
  stddevm2 :: float64
  RecordRtts :: bool
  RecordTTLs :: bool
  rtts :: "duration list"
  ttls :: "byte list"
  OnSetup :: bool
  OnSend :: bool
  OnRecv :: bool
  OnFinish :: bool
  OnDuplicateRecv :: bool
  OnSendError :: bool
  OnRecvError :: bool
  Size :: int
  Tracker :: int
  Source :: string
  InterfaceName :: string
  done_chan :: chan
  ipaddr :: "ip_addr option"
  addr :: string
  mark :: int
  df :: bool
  trackerUUIDs :: "'u list"
  ipv4 :: bool
  ident :: int
  sequence :: int
  awaitingSequences :: "'u \<Rightarrow> int set option"
  network :: string
  protocol :: string
  p_logger :: "logger option"
  p_TTL :: int
  tclass :: byte

section \<open>New\<close>

text \<open>
  \<^verbatim>\<open>New(addr)\<close> with what it draws from outside: the identifier \<open>r = rand.Intn(65535)\<close>
  and the first tracker \<open>u = uuid.New()\<close>. The seed of that generator is
  \<^verbatim>\<open>getSeed\<close>, an atomic increment of a global.
\<close>

definition getSeed :: "int \<Rightarrow> int" where
  "getSeed seed = i64 (seed + 1)"

definition New :: "string \<Rightarrow> int \<Rightarrow> 'u \<Rightarrow> 'u pinger" where
  "New a r u = \<lparr>
     Interval = 1000000000,
     Timeout = 2 ^ 63 - 1,
     ResolveTimeout = 0,
     Count = - 1,
     PacketsSent = 0,
     PacketsRecv = 0,
     PacketsRecvDuplicates = 0,
     minRtt = 0, maxRtt = 0, avgRtt = 0, stdDevRtt = 0,
     stddevm2 = Fin 0,
     RecordRtts = True,
     RecordTTLs = True,
     rtts = [], ttls = [],
     OnSetup = False, OnSend = False, OnRecv = False, OnFinish = False,
     OnDuplicateRecv = False, OnSendError = False, OnRecvError = False,
     Size = int (timeSliceLength + trackerLength),
     Tracker = 0,
     Source = '''',
     InterfaceName = '''',
     done_chan = OpenChan,
     ipaddr = None,
     addr = a,
     mark = 0,
     df = False,
     trackerUUIDs = [u],
     ipv4 = False,
     ident = r,
     sequence = 0,
     awaitingSequences = [u \<mapsto> {}],
     network = networkIP,
     protocol = ''udp'',
     p_logger = Some StdLogger,
     p_TTL = 64,
     tclass = 0\<rparr>"

section \<open>Setters and getters\<close>

text \<open>\<open>ip_string\<close> stands for \<^verbatim>\<open>(*net.IPAddr).String\<close>: the text of an address, which the code only passes on.\<close>

definition SetIPAddr :: "(ip_addr option \<Rightarrow> string) \<Rightarrow> ip_addr option \<Rightarrow> 'u pinger \<Rightarrow> 'u pinger go" where
  "SetIPAddr ip_string a p = (case a of
       None \<Rightarrow> Inl NilDereference
     | Some v \<Rightarrow>
        (let p = p\<lparr>ipv4 := isIPv4 (IP v)\<rparr>;
             p = p\<lparr>ipaddr := a\<rparr>;
             p = p\<lparr>addr := ip_string a\<rparr>
         in Inr p))"

definition get_IPAddr :: "'u pinger \<Rightarrow> ip_addr option" where
  "get_IPAddr p = ipaddr p"

definition get_Addr :: "'u pinger \<Rightarrow> string" where
  "get_Addr p = addr p"

definition SetNetwork :: "string \<Rightarrow> 'u pinger \<Rightarrow> 'u pinger" where
  "SetNetwork n p =
     (if n = networkIPv4 then p\<lparr>network := networkIPv4\<rparr>
      else if n = networkIPv6 then p\<lparr>network := networkIPv6\<rparr>
      else p\<lparr>network := networkIP\<rparr>)"

definition SetPrivileged :: "bool \<Rightarrow> 'u pinger \<Rightarrow> 'u pinger" where
  "SetPrivileged privileged p =
     (if privileged then p\<lparr>protocol := ''icmp''\<rparr> else p\<lparr>protocol := ''udp''\<rparr>)"

definition Privileged :: "'u pinger \<Rightarrow> bool" where
  "Privileged p \<longleftrightarrow> protocol p = ''icmp''"

definition SetLogger :: "logger option \<Rightarrow> 'u pinger \<Rightarrow> 'u pinger" where
  "SetLogger l p = p\<lparr>p_logger := l\<rparr>"

definition SetID :: "int \<Rightarrow> 'u pinger \<Rightarrow> 'u pinger" where
  "SetID i p = p\<lparr>ident := i\<rparr>"

definition get_ID :: "'u pinger \<Rightarrow> int" where
  "get_ID p = ident p"

definition SetMark :: "int \<Rightarrow> 'u pinger \<Rightarrow> 'u pinger" where
  "SetMark m p = p\<lparr>mark := m\<rparr>"

definition Mark :: "'u pinger \<Rightarrow> int" where
  "Mark p = mark p"

definition SetDoNotFragment :: "bool \<Rightarrow> 'u pinger \<Rightarrow> 'u pinger" where
  "SetDoNotFragment b p = p\<lparr>df := b\<rparr>"

definition SetTrafficClass :: "byte \<Rightarrow> 'u pinger \<Rightarrow> 'u pinger" where
  "SetTrafficClass tc p = p\<lparr>tclass := tc\<rparr>"

definition TrafficClass :: "'u pinger \<Rightarrow> byte" where
  "TrafficClass p = tclass p"

section \<open>Stop\<close>

text \<open>
  \<^verbatim>\<open>Stop\<close>: under the lock, a receive that does not block tells whether the channel is already
  closed; only an open one is closed. On a nil channel the receive is never ready, so the
  \<^verbatim>\<open>close\<close> is reached and panics.
\<close>

definition Stop :: "'u pinger \<Rightarrow> 'u pinger go" where
  "Stop p =
     (let still_open = (if chan_ready (done_chan p) then False else True)
      in if still_open then go_bind (chan_close (done_chan p)) (\<lambda>c. Inr (p\<lparr>done_chan := c\<rparr>))
         else Inr p)"

lemma Stop_simps:
  "done_chan p = OpenChan \<Longrightarrow> Stop p = Inr (p\<lparr>done_chan := ClosedChan\<rparr>)"
  "done_chan p = ClosedChan \<Longrightarrow> Stop p = Inr p"
  "done_chan p = NilChan \<Longrightarrow> Stop p = Inl CloseOfNil"
  by (simp_all add: Stop_def chan_ready_def)

lemma Stop_Inr: "done_chan p \<noteq> NilChan \<Longrightarrow> Stop p = Inr (p\<lparr>done_chan := ClosedChan\<rparr>)"
  by (cases "done_chan p") (simp_all add: Stop_simps)

end
