(* ===== verification/Utils_Linux.thy ===== *)
theory Utils_Linux
  imports Packet_Conn Pinger_State
begin

text \<open>
  \<^verbatim>\<open>utils_linux.go\<close>: the platform's part of the pinger (buffer size, identifier match) and of
  the connection (socket options through the file descriptor, the BPF filter). Socket option
  levels and names are strings, as the code names them.
\<close>

section \<open>The pinger's part\<close>

definition linux_getMessageLength :: "'u pinger \<Rightarrow> int" where
  "linux_getMessageLength p = i64 (Size p + 8)"

definition linux_matchID :: "'u pinger \<Rightarrow> int \<Rightarrow> bool" where
  "linux_matchID p i = (if protocol p = ''icmp'' then i = ident p else True)"

section \<open>Socket options\<close>

text \<open>
  \<^verbatim>\<open>getFD\<close> reads the unexported fields \<^verbatim>\<open>c\<close>, \<^verbatim>\<open>conn\<close>, \<^verbatim>\<open>fd\<close>, \<^verbatim>\<open>pfd\<close>, \<^verbatim>\<open>Sysfd\<close> of the
  socket by reflection and returns the descriptor as a \<^verbatim>\<open>uintptr\<close>.
\<close>

definition getFD :: "'s xnet \<Rightarrow> 's \<Rightarrow> go_error + int" where
  "getFD xn s =
     (if \<not> xn_c_is_struct xn s then Inl E_invalid_type
      else if \<not> xn_fd_is_struct xn s then Inl E_invalid_type
      else if \<not> xn_pfd_is_struct xn s then Inl E_invalid_type
      else Inr (xn_Sysfd xn s mod 2 ^ 64))"

definition IP_PMTUDISC_DO :: int where
  "IP_PMTUDISC_DO = 2"

definition linux_icmpConn_SetMark :: "'s xnet \<Rightarrow> 's icmp_conn \<Rightarrow> int \<Rightarrow> 's icmp_conn \<times> go_error option" where
  "linux_icmpConn_SetMark xn c m = (case getFD xn (sock c) of
       Inl err \<Rightarrow> (c, Some err)
     | Inr fd \<Rightarrow>
        (let (c, err) = on_sock c (xn_Setsockopt xn (sock c) (i64 fd) ''SOL_SOCKET'' ''SO_MARK'' (i64 m))
         in (c, NewSyscallError ''setsockopt'' err)))"

definition linux_icmpv4Conn_SetMark :: "'s xnet \<Rightarrow> 's icmp_conn \<Rightarrow> int \<Rightarrow> 's icmp_conn \<times> go_error option" where
  "linux_icmpv4Conn_SetMark xn c m = (case getFD xn (sock c) of
       Inl err \<Rightarrow> (c, Some err)
     | Inr fd \<Rightarrow>
        (let (c, err) = on_sock c (xn_Setsockopt xn (sock c) (i64 fd) ''SOL_SOCKET'' ''SO_MARK'' (i64 m))
         in (c, NewSyscallError ''setsockopt'' err)))"

definition linux_icmpV6Conn_SetMark :: "'s xnet \<Rightarrow> 's icmp_conn \<Rightarrow> int \<Rightarrow> 's icmp_conn \<times> go_error option" where
  "linux_icmpV6Conn_SetMark xn c m = (case getFD xn (sock c) of
       Inl err \<Rightarrow> (c, Some err)
     | Inr fd \<Rightarrow>
        (let (c, err) = on_sock c (xn_Setsockopt xn (sock c) (i64 fd) ''SOL_SOCKET'' ''SO_MARK'' (i64 m))
         in (c, NewSyscallError ''setsockopt'' err)))"

definition linux_icmpConn_SetDoNotFragment :: "'s xnet \<Rightarrow> 's icmp_conn \<Rightarrow> 's icmp_conn \<times> go_error option" where
  "linux_icmpConn_SetDoNotFragment xn c = (case getFD xn (sock c) of
       Inl err \<Rightarrow> (c, Some err)
     | Inr fd \<Rightarrow>
        (let (c, err) = on_sock c (xn_Setsockopt xn (sock c) (i64 fd) ''IPPROTO_IP'' ''IP_MTU_DISCOVER'' IP_PMTUDISC_DO)
         in (c, NewSyscallError ''setsockopt'' err)))"

definition linux_icmpv4Conn_SetDoNotFragment :: "'s xnet \<Rightarrow> 's icmp_conn \<Rightarrow> 's icmp_conn \<times> go_error option" where
  "linux_icmpv4Conn_SetDoNotFragment xn c = (case getFD xn (sock c) of
       Inl err \<Rightarrow> (c, Some err)
     | Inr fd \<Rightarrow>
        (let (c, err) = on_sock c (xn_Setsockopt xn (sock c) (i64 fd) ''IPPROTO_IP'' ''IP_MTU_DISCOVER'' IP_PMTUDISC_DO)
         in (c, NewSyscallError ''setsockopt'' err)))"

definition linux_icmpV6Conn_SetDoNotFragment :: "'s xnet \<Rightarrow> 's icmp_conn \<Rightarrow> 's icmp_conn \<times> go_error option" where
  "linux_icmpV6Conn_SetDoNotFragment xn c = (case getFD xn (sock c) of
       Inl err \<Rightarrow> (c, Some err)
     | Inr fd \<Rightarrow>
        (let (c, err) = on_sock c (xn_Setsockopt xn (sock c) (i64 fd) ''IPPROTO_IPV6'' ''IPV6_MTU_DISCOVER'' IP_PMTUDISC_DO)
         in (c, NewSyscallError ''setsockopt'' err)))"

definition linux_icmpConn_SetBroadcastFlag :: "'s xnet \<Rightarrow> 's icmp_conn \<Rightarrow> 's icmp_conn \<times> go_error option" where
  "linux_icmpConn_SetBroadcastFlag xn c = (case getFD xn (sock c) of
       Inl err \<Rightarrow> (c, Some err)
     | Inr fd \<Rightarrow>
        (let (c, err) = on_sock c (xn_Setsockopt xn (sock c) (i64 fd) ''SOL_SOCKET'' ''SO_BROADCAST'' 1)
         in (c, NewSyscallError ''setsockopt'' err)))"

definition linux_icmpv4Conn_SetBroadcastFlag :: "'s xnet \<Rightarrow> 's icmp_conn \<Rightarrow> 's icmp_conn \<times> go_error option" where
  "linux_icmpv4Conn_SetBroadcastFlag xn c = (case getFD xn (sock c) of
       Inl err \<Rightarrow> (c, Some err)
     | Inr fd \<Rightarrow>
        (let (c, err) = on_sock c (xn_Setsockopt xn (sock c) (i64 fd) ''SOL_SOCKET'' ''SO_BROADCAST'' 1)
         in (c, NewSyscallError ''setsockopt'' err)))"

definition linux_icmpV6Conn_SetBroadcastFlag :: "'s xnet \<Rightarrow> 's icmp_conn \<Rightarrow> 's icmp_conn \<times> go_error option" where
  "linux_icmpV6Conn_SetBroadcastFlag xn c = (case getFD xn (sock c) of
       Inl err \<Rightarrow> (c, Some err)
     | Inr fd \<Rightarrow>
        (let (c, err) = on_sock c (xn_Setsockopt xn (sock c) (i64 fd) ''SOL_SOCKET'' ''SO_BROADCAST'' 1)
         in (c, NewSyscallError ''setsockopt'' err)))"

section \<open>The identifier filter\<close>

text \<open>\<^verbatim>\<open>uint32(id)\<close> keeps the low 32 bits; \<^verbatim>\<open>^uint32(0)\<close> is all ones.\<close>

definition filter_v4 :: "int \<Rightarrow> bpf_instr list" where
  "filter_v4 i =
     [LoadMemShift 0,
      LoadIndirect 0 1,
      JumpIfEqual 0 1 0,
      RetConstant 0,
      LoadIndirect 4 2,
      JumpIfEqual (word_of_int i) 0 1,
      RetConstant (NOT 0),
      RetConstant 0]"

definition filter_v6 :: "int \<Rightarrow> bpf_instr list" where
  "filter_v6 i =
     [LoadAbsolute 0 1,
      JumpIfEqual 129 1 0,
      RetConstant 0,
      LoadAbsolute 4 2,
      JumpIfEqual (word_of_int i) 0 1,
      RetConstant (NOT 0),
      RetConstant 0]"

definition linux_icmpv4Conn_InstallICMPIDFilter ::
  "'s xnet \<Rightarrow> 's icmp_conn \<Rightarrow> int \<Rightarrow> 's icmp_conn \<times> go_error option" where
  "linux_icmpv4Conn_InstallICMPIDFilter xn c i = (case xn_Assemble xn (filter_v4 i) of
       Some err \<Rightarrow> (c, Some err)
     | None \<Rightarrow> on_sock c (xn_SetBPF xn (sock c) (filter_v4 i)))"

definition linux_icmpV6Conn_InstallICMPIDFilter ::
  "'s xnet \<Rightarrow> 's icmp_conn \<Rightarrow> int \<Rightarrow> 's icmp_conn \<times> go_error option" where
  "linux_icmpV6Conn_InstallICMPIDFilter xn c i = (case xn_Assemble xn (filter_v6 i) of
       Some err \<Rightarrow> (c, Some err)
     | None \<Rightarrow> on_sock c (xn_SetBPF xn (sock c) (filter_v6 i)))"

text \<open>The methods of \<^verbatim>\<open>icmpConn\<close> do what those of the IPv4 connection do.\<close>

lemmas linux_sockopt_defs =
  linux_icmpConn_SetMark_def linux_icmpv4Conn_SetMark_def linux_icmpV6Conn_SetMark_def
  linux_icmpConn_SetDoNotFragment_def linux_icmpv4Conn_SetDoNotFragment_def linux_icmpV6Conn_SetDoNotFragment_def
  linux_icmpConn_SetBroadcastFlag_def linux_icmpv4Conn_SetBroadcastFlag_def linux_icmpV6Conn_SetBroadcastFlag_def

end
