(* ===== verification/Utils_Other.thy ===== *)
theory Utils_Other
  imports Packet_Conn Pinger_State
begin

text \<open>
  \<^verbatim>\<open>utils_other.go\<close>: the systems other than Linux and Windows. Marks and the do-not-fragment
  bit are refused; the broadcast flag and the filter are accepted and ignored.
\<close>

definition other_getMessageLength :: "'u pinger \<Rightarrow> int" where
  "other_getMessageLength p = i64 (Size p + 8)"

definition other_matchID :: "'u pinger \<Rightarrow> int \<Rightarrow> bool" where
  "other_matchID p i \<longleftrightarrow> i = ident p"

definition other_icmpConn_SetMark :: "'s icmp_conn \<Rightarrow> int \<Rightarrow> 's icmp_conn \<times> go_error option" where
  "other_icmpConn_SetMark c m = (c, Some ErrMarkNotSupported)"

definition other_icmpv4Conn_SetMark :: "'s icmp_conn \<Rightarrow> int \<Rightarrow> 's icmp_conn \<times> go_error option" where
  "other_icmpv4Conn_SetMark c m = (c, Some ErrMarkNotSupported)"

definition other_icmpV6Conn_SetMark :: "'s icmp_conn \<Rightarrow> int \<Rightarrow> 's icmp_conn \<times> go_error option" where
  "other_icmpV6Conn_SetMark c m = (c, Some ErrMarkNotSupported)"

definition other_icmpConn_SetDoNotFragment :: "'s icmp_conn \<Rightarrow> 's icmp_conn \<times> go_error option" where
  "other_icmpConn_SetDoNotFragment c = (c, Some ErrDFNotSupported)"

definition other_icmpv4Conn_SetDoNotFragment :: "'s icmp_conn \<Rightarrow> 's icmp_conn \<times> go_error option" where
  "other_icmpv4Conn_SetDoNotFragment c = (c, Some ErrDFNotSupported)"

definition other_icmpV6Conn_SetDoNotFragment :: "'s icmp_conn \<Rightarrow> 's icmp_conn \<times> go_error option" where
  "other_icmpV6Conn_SetDoNotFragment c = (c, Some ErrDFNotSupported)"

definition other_icmpConn_SetBroadcastFlag :: "'s icmp_conn \<Rightarrow> 's icmp_conn \<times> go_error option" where
  "other_icmpConn_SetBroadcastFlag c = (c, None)"

definition other_icmpv4Conn_SetBroadcastFlag :: "'s icmp_conn \<Rightarrow> 's icmp_conn \<times> go_error option" where
  "other_icmpv4Conn_SetBroadcastFlag c = (c, None)"

definition other_icmpV6Conn_SetBroadcastFlag :: "'s icmp_conn \<Rightarrow> 's icmp_conn \<times> go_error option" where
  "other_icmpV6Conn_SetBroadcastFlag c = (c, None)"

definition other_icmpv4Conn_InstallICMPIDFilter :: "'s icmp_conn \<Rightarrow> int \<Rightarrow> 's icmp_conn \<times> go_error option" where
  "other_icmpv4Conn_InstallICMPIDFilter c i = (c, None)"

definition other_icmpV6Conn_InstallICMPIDFilter :: "'s icmp_conn \<Rightarrow> int \<Rightarrow> 's icmp_conn \<times> go_error option" where
  "other_icmpV6Conn_InstallICMPIDFilter c i = (c, None)"

lemmas other_conn_defs =
  other_icmpConn_SetMark_def other_icmpv4Conn_SetMark_def other_icmpV6Conn_SetMark_def
  other_icmpConn_SetDoNotFragment_def other_icmpv4Conn_SetDoNotFragment_def other_icmpV6Conn_SetDoNotFragment_def
  other_icmpConn_SetBroadcastFlag_def other_icmpv4Conn_SetBroadcastFlag_def other_icmpV6Conn_SetBroadcastFlag_def
  other_icmpv4Conn_InstallICMPIDFilter_def other_icmpV6Conn_InstallICMPIDFilter_def

end
