(* ===== verification/Utils_Windows.thy ===== *)
theory Utils_Windows
  imports Packet_Conn Pinger_State
begin

text \<open>
  \<^verbatim>\<open>utils_windows.go\<close>: as on the other systems, except for the receive buffer, which also
  holds the request's headers and is at least 2048 bytes long; the maximum goes through
  \<^verbatim>\<open>float64\<close>.
\<close>

definition minimumBufferLength :: int where
  "minimumBufferLength = 2048"

definition ipv4_HeaderLen :: int where "ipv4_HeaderLen = 20"
definition ipv6_HeaderLen :: int where "ipv6_HeaderLen = 40"

definition windows_getMessageLength :: "'u pinger \<Rightarrow> int" where
  "windows_getMessageLength p =
     (if ipv4 p then
        let calculatedLength = i64 (Size p + (ipv4_HeaderLen + 8) * 2)
        in f64_to_i64 (f64_max (f64_of_int calculatedLength) (f64_of_int minimumBufferLength))
      else
        let calculatedLength = i64 (Size p + (ipv6_HeaderLen + 8) * 2)
        in f64_to_i64 (f64_max (f64_of_int calculatedLength) (f64_of_int minimumBufferLength)))"

definition windows_matchID :: "'u pinger \<Rightarrow> int \<Rightarrow> bool" where
  "windows_matchID p i = (if i \<noteq> ident p then False else True)"

definition windows_icmpConn_SetMark :: "'s icmp_conn \<Rightarrow> int \<Rightarrow> 's icmp_conn \<times> go_error option" where
  "windows_icmpConn_SetMark c m = (c, Some ErrMarkNotSupported)"

definition windows_icmpv4Conn_SetMark :: "'s icmp_conn \<Rightarrow> int \<Rightarrow> 's icmp_conn \<times> go_error option" where
  "windows_icmpv4Conn_SetMark c m = (c, Some ErrMarkNotSupported)"

definition windows_icmpV6Conn_SetMark :: "'s icmp_conn \<Rightarrow> int \<Rightarrow> 's icmp_conn \<times> go_error option" where
  "windows_icmpV6Conn_SetMark c m = (c, Some ErrMarkNotSupported)"

definition windows_icmpConn_SetDoNotFragment :: "'s icmp_conn \<Rightarrow> 's icmp_conn \<times> go_error option" where
  "windows_icmpConn_SetDoNotFragment c = (c, Some ErrDFNotSupported)"

definition windows_icmpv4Conn_SetDoNotFragment :: "'s icmp_conn \<Rightarrow> 's icmp_conn \<times> go_error option" where
  "windows_icmpv4Conn_SetDoNotFragment c = (c, Some ErrDFNotSupported)"

definition windows_icmpV6Conn_SetDoNotFragment :: "'s icmp_conn \<Rightarrow> 's icmp_conn \<times> go_error option" where
  "windows_icmpV6Conn_SetDoNotFragment c = (c, Some ErrDFNotSupported)"

definition windows_icmpConn_SetBroadcastFlag :: "'s icmp_conn \<Rightarrow> 's icmp_conn \<times> go_error option" where
  "windows_icmpConn_SetBroadcastFlag c = (c, None)"

definition windows_icmpv4Conn_SetBroadcastFlag :: "'s icmp_conn \<Rightarrow> 's icmp_conn \<times> go_error option" where
  "windows_icmpv4Conn_SetBroadcastFlag c = (c, None)"

definition windows_icmpV6Conn_SetBroadcastFlag :: "'s icmp_conn \<Rightarrow> 's icmp_conn \<times> go_error option" where
  "windows_icmpV6Conn_SetBroadcastFlag c = (c, None)"

definition windows_icmpv4Conn_InstallICMPIDFilter :: "'s icmp_conn \<Rightarrow> int \<Rightarrow> 's icmp_conn \<times> go_error option" where
  "windows_icmpv4Conn_InstallICMPIDFilter c i = (c, None)"

definition windows_icmpV6Conn_InstallICMPIDFilter :: "'s icmp_conn \<Rightarrow> int \<Rightarrow> 's icmp_conn \<times> go_error option" where
  "windows_icmpV6Conn_InstallICMPIDFilter c i = (c, None)"

lemmas windows_conn_defs =
  windows_icmpConn_SetMark_def windows_icmpv4Conn_SetMark_def windows_icmpV6Conn_SetMark_def
  windows_icmpConn_SetDoNotFragment_def windows_icmpv4Conn_SetDoNotFragment_def windows_icmpV6Conn_SetDoNotFragment_def
  windows_icmpConn_SetBroadcastFlag_def windows_icmpv4Conn_SetBroadcastFlag_def windows_icmpV6Conn_SetBroadcastFlag_def
  windows_icmpv4Conn_InstallICMPIDFilter_def windows_icmpV6Conn_InstallICMPIDFilter_def

end
