(* ===== verification/Platform.thy ===== *)
theory Platform
  imports Utils_Linux Utils_Other Utils_Windows
begin

text \<open>
  The methods the build constraints and \<^verbatim>\<open>runtime.GOOS\<close> choose between, put together: the two
  connections as values of the interface \<^verbatim>\<open>packetConn\<close>. The locale \<open>conn_inv\<close> is an invariant
  of an open connection; \<open>packet_conn_spec\<close> extends it to the contract the pinger relies on (what a
  connection was configured with stays as it is), with both connections as its instances.
\<close>

section \<open>The pinger's part\<close>

definition getMessageLength :: "goos \<Rightarrow> 'u pinger \<Rightarrow> int" where
  "getMessageLength os p = (case os of Linux \<Rightarrow> linux_getMessageLength p
     | Windows \<Rightarrow> windows_getMessageLength p | _ \<Rightarrow> other_getMessageLength p)"

definition matchID :: "goos \<Rightarrow> 'u pinger \<Rightarrow> int \<Rightarrow> bool" where
  "matchID os p i = (case os of Linux \<Rightarrow> linux_matchID p i
     | Windows \<Rightarrow> windows_matchID p i | _ \<Rightarrow> other_matchID p i)"

section \<open>The connections\<close>

definition icmpv4Conn_methods :: "goos \<Rightarrow> 's xnet \<Rightarrow> 's icmp_conn packet_conn" where
  "icmpv4Conn_methods os xn = \<lparr>
     Close = icmpConn_Close xn,
     ICMPRequestType = icmpv4Conn_ICMPRequestType,
     ReadFrom = icmpv4Conn_ReadFrom xn,
     SetFlagTTL = icmpv4Conn_SetFlagTTL os xn,
     SetReadDeadline = icmpConn_SetReadDeadline xn,
     WriteTo = icmpv4Conn_WriteTo xn,
     SetTTL = icmpConn_SetTTL,
     c_SetMark = (case os of Linux \<Rightarrow> linux_icmpv4Conn_SetMark xn
       | Windows \<Rightarrow> windows_icmpv4Conn_SetMark | _ \<Rightarrow> other_icmpv4Conn_SetMark),
     c_SetDoNotFragment = (case os of Linux \<Rightarrow> linux_icmpv4Conn_SetDoNotFragment xn
       | Windows \<Rightarrow> windows_icmpv4Conn_SetDoNotFragment | _ \<Rightarrow> other_icmpv4Conn_SetDoNotFragment),
     SetBroadcastFlag = (case os of Linux \<Rightarrow> linux_icmpv4Conn_SetBroadcastFlag xn
       | Windows \<Rightarrow> windows_icmpv4Conn_SetBroadcastFlag | _ \<Rightarrow> other_icmpv4Conn_SetBroadcastFlag),
     SetIfIndex = icmpConn_SetIfIndex,
     SetSource = icmpConn_SetSource,
     c_SetTrafficClass = icmpv4Conn_SetTrafficClass xn,
     InstallICMPIDFilter = (case os of Linux \<Rightarrow> linux_icmpv4Conn_InstallICMPIDFilter xn
       | Windows \<Rightarrow> windows_icmpv4Conn_InstallICMPIDFilter | _ \<Rightarrow> other_icmpv4Conn_InstallICMPIDFilter)\<rparr>"

definition icmpV6Conn_methods :: "goos \<Rightarrow> 's xnet \<Rightarrow> 's icmp_conn packet_conn" where
  "icmpV6Conn_methods os xn = \<lparr>
     Close = icmpConn_Close xn,
     ICMPRequestType = icmpV6Conn_ICMPRequestType,
     ReadFrom = icmpV6Conn_ReadFrom xn,
     SetFlagTTL = icmpV6Conn_SetFlagTTL os xn,
     SetReadDeadline = icmpConn_SetReadDeadline xn,
     WriteTo = icmpV6Conn_WriteTo xn,
     SetTTL = icmpConn_SetTTL,
     c_SetMark = (case os of Linux \<Rightarrow> linux_icmpV6Conn_SetMark xn
       | Windows \<Rightarrow> windows_icmpV6Conn_SetMark | _ \<Rightarrow> other_icmpV6Conn_SetMark),
     c_SetDoNotFragment = (case os of Linux \<Rightarrow> linux_icmpV6Conn_SetDoNotFragment xn
       | Windows \<Rightarrow> windows_icmpV6Conn_SetDoNotFragment | _ \<Rightarrow> other_icmpV6Conn_SetDoNotFragment),
     SetBroadcastFlag = (case os of Linux \<Rightarrow> linux_icmpV6Conn_SetBroadcastFlag xn
       | Windows \<Rightarrow> windows_icmpV6Conn_SetBroadcastFlag | _ \<Rightarrow> other_icmpV6Conn_SetBroadcastFlag),
     SetIfIndex = icmpConn_SetIfIndex,
     SetSource = icmpConn_SetSource,
     c_SetTrafficClass = icmpV6Conn_SetTrafficClass xn,
     InstallICMPIDFilter = (case os of Linux \<Rightarrow> linux_icmpV6Conn_InstallICMPIDFilter xn
       | Windows \<Rightarrow> windows_icmpV6Conn_InstallICMPIDFilter | _ \<Rightarrow> other_icmpV6Conn_InstallICMPIDFilter)\<rparr>"

section \<open>The contract\<close>

text \<open>
  The operations a run performs on a connection that may fail, and their effect. A closed
  connection is still a value.
\<close>

datatype conn_op =
    OpClose
  | OpRead "byte list"
  | OpFlagTTL
  | OpDeadline time
  | OpWrite "byte list" net_addr
  | OpMark int
  | OpDF
  | OpBroadcast
  | OpClass byte
  | OpFilter int

fun apply_op :: "'c packet_conn \<Rightarrow> conn_op \<Rightarrow> 'c \<Rightarrow> 'c" where
  "apply_op pc OpClose c = fst (Close pc c)"
| "apply_op pc (OpRead b) c = fst (ReadFrom pc c b)"
| "apply_op pc OpFlagTTL c = fst (SetFlagTTL pc c)"
| "apply_op pc (OpDeadline t) c = fst (SetReadDeadline pc c t)"
| "apply_op pc (OpWrite b dst) c = fst (WriteTo pc c b dst)"
| "apply_op pc (OpMark m) c = fst (c_SetMark pc c m)"
| "apply_op pc OpDF c = fst (c_SetDoNotFragment pc c)"
| "apply_op pc OpBroadcast c = fst (SetBroadcastFlag pc c)"
| "apply_op pc (OpClass tc) c = fst (c_SetTrafficClass pc c tc)"
| "apply_op pc (OpFilter i) c = fst (InstallICMPIDFilter pc c i)"

text \<open>What no operation but \<^verbatim>\<open>Close\<close> can break.\<close>

locale conn_inv =
  fixes pc :: "'c packet_conn"
    and I :: "'c \<Rightarrow> bool"
  assumes inv_op: "opn \<noteq> OpClose \<Longrightarrow> I c \<Longrightarrow> I (apply_op pc opn c)"
begin

lemma inv_calls:
  assumes "I c"
  shows "I (fst (ReadFrom pc c b))"
    "I (fst (SetFlagTTL pc c))"
    "I (fst (SetReadDeadline pc c t))"
    "I (fst (WriteTo pc c b dst))"
    "I (fst (c_SetMark pc c m))"
    "I (fst (c_SetDoNotFragment pc c))"
    "I (fst (SetBroadcastFlag pc c))"
    "I (fst (c_SetTrafficClass pc c tc))"
    "I (fst (InstallICMPIDFilter pc c i))"
  using assms inv_op [of "OpRead b" c] inv_op [of OpFlagTTL c] inv_op [of "OpDeadline t" c]
    inv_op [of "OpWrite b dst" c] inv_op [of "OpMark m" c] inv_op [of OpDF c] inv_op [of OpBroadcast c]
    inv_op [of "OpClass tc" c] inv_op [of "OpFilter i" c]
  by simp_all

end

text \<open>The configuration: TTL, interface index and source address.\<close>

locale packet_conn_spec =
  fixes pc :: "'c packet_conn"
    and config :: "'c \<Rightarrow> int \<times> int \<times> ip"
  assumes config_SetTTL: "config c = (t, i, a) \<Longrightarrow> config (SetTTL pc c n) = (n, i, a)"
    and config_SetIfIndex: "config c = (t, i, a) \<Longrightarrow> config (SetIfIndex pc c n) = (t, n, a)"
    and config_SetSource: "config c = (t, i, a) \<Longrightarrow> config (SetSource pc c s) = (t, i, s)"
    and config_op: "config (apply_op pc opn c) = config c"
    and type_fixed: "ICMPRequestType pc c = ICMPRequestType pc c'"
begin

lemma config_ops: "config (fold (apply_op pc) ops c) = config c"
  by (induction ops arbitrary: c) (simp_all add: config_op)

end

sublocale packet_conn_spec \<subseteq> kept: conn_inv pc "\<lambda>c. config c = k" for k
  by unfold_locales (simp add: config_op)

definition conn_config :: "'s icmp_conn \<Rightarrow> int \<times> int \<times> ip" where
  "conn_config c = (conn_ttl c, ifIndex c, source c)"

lemma conn_config_sock [simp]: "conn_config (c\<lparr>sock := s\<rparr>) = conn_config c"
  by (simp add: conn_config_def)

lemma conn_config_on_sock [simp]: "conn_config (fst (on_sock c r)) = conn_config c"
  by (simp add: on_sock_def)

lemma conn_config_WriteTo: "conn_config (fst (icmpv4Conn_WriteTo xn c b dst)) = conn_config c"
  by (auto simp: WriteTo_spec split: prod.splits)

lemma conn_config_ReadFrom:
  "conn_config (fst (icmpv4Conn_ReadFrom xn c b)) = conn_config c"
  "conn_config (fst (icmpV6Conn_ReadFrom xn c b)) = conn_config c"
  by (simp_all add: icmpv4Conn_ReadFrom_def icmpV6Conn_ReadFrom_def on_sock_def split: prod.split)

lemma conn_config_SetFlagTTL:
  "conn_config (fst (icmpv4Conn_SetFlagTTL os xn c)) = conn_config c"
  "conn_config (fst (icmpV6Conn_SetFlagTTL os xn c)) = conn_config c"
  by (simp_all add: icmpv4Conn_SetFlagTTL_def icmpV6Conn_SetFlagTTL_def on_sock_def)

lemma conn_config_sockopt:
  "conn_config (fst (linux_icmpv4Conn_SetMark xn c m)) = conn_config c"
  "conn_config (fst (linux_icmpV6Conn_SetMark xn c m)) = conn_config c"
  "conn_config (fst (linux_icmpv4Conn_SetDoNotFragment xn c)) = conn_config c"
  "conn_config (fst (linux_icmpV6Conn_SetDoNotFragment xn c)) = conn_config c"
  "conn_config (fst (linux_icmpv4Conn_SetBroadcastFlag xn c)) = conn_config c"
  "conn_config (fst (linux_icmpV6Conn_SetBroadcastFlag xn c)) = conn_config c"
  "conn_config (fst (linux_icmpv4Conn_InstallICMPIDFilter xn c i)) = conn_config c"
  "conn_config (fst (linux_icmpV6Conn_InstallICMPIDFilter xn c i)) = conn_config c"
  by (simp_all add: linux_sockopt_defs linux_icmpv4Conn_InstallICMPIDFilter_def
      linux_icmpV6Conn_InstallICMPIDFilter_def on_sock_def split: sum.split option.split)

lemma conn_config_op:
  "conn_config (apply_op (icmpv4Conn_methods os xn) opn c) = conn_config c"
  "conn_config (apply_op (icmpV6Conn_methods os xn) opn c) = conn_config c"
  by (cases opn; simp add: icmpv4Conn_methods_def icmpV6Conn_methods_def icmpConn_Close_def
      icmpConn_SetReadDeadline_def conn_config_WriteTo WriteTo_v6_eq conn_config_ReadFrom
      conn_config_SetFlagTTL conn_config_sockopt icmpv4Conn_SetTrafficClass_def icmpV6Conn_SetTrafficClass_def
      windows_conn_defs other_conn_defs split: goos.split)+

interpretation v4: packet_conn_spec "icmpv4Conn_methods os xn" conn_config for os xn
  by unfold_locales (simp_all add: conn_config_op, simp_all add: icmpv4Conn_methods_def conn_config_def
      icmpConn_SetTTL_def icmpConn_SetIfIndex_def icmpConn_SetSource_def icmpv4Conn_ICMPRequestType_def)

interpretation v6: packet_conn_spec "icmpV6Conn_methods os xn" conn_config for os xn
  by unfold_locales (simp_all add: conn_config_op, simp_all add: icmpV6Conn_methods_def conn_config_def
      icmpConn_SetTTL_def icmpConn_SetIfIndex_def icmpConn_SetSource_def icmpV6Conn_ICMPRequestType_def)

section \<open>The receive buffer\<close>

lemma f64_max_int:
  assumes "0 \<le> m" "m \<le> 2 ^ 53" "0 \<le> n" "n \<le> 2 ^ 53"
  shows "f64_to_i64 (f64_max (f64_of_int m) (f64_of_int n)) = max m n"
proof -
  have "f64_of_int m = Fin (of_int m)" "f64_of_int n = Fin (of_int n)"
    using assms by (simp_all add: f64_of_int_Fin rnd_of_int)
  moreover have "is_i64 m" "is_i64 n" using assms by (auto simp: is_i64_def)
  ultimately show ?thesis using assms by (simp add: Let_def max_def)
qed

lemma windows_getMessageLength_max:
  assumes "0 \<le> Size p" "Size p \<le> 2 ^ 52"
  shows "windows_getMessageLength p = max (Size p + (if ipv4 p then 56 else 96)) 2048"
proof -
  have "i64 (Size p + 56) = Size p + 56" "i64 (Size p + 96) = Size p + 96"
    using assms by (auto intro!: i64_id simp: is_i64_def)
  moreover have "f64_to_i64 (f64_max (f64_of_int (Size p + k)) (f64_of_int 2048)) = max (Size p + k) 2048"
    if "0 \<le> k" "k \<le> 96" for k
    using assms that by (intro f64_max_int) simp_all
  ultimately show ?thesis
    by (simp add: windows_getMessageLength_def Let_def ipv4_HeaderLen_def ipv6_HeaderLen_def minimumBufferLength_def)
qed

lemma message_length_bounds:
  assumes "0 \<le> Size p" "Size p \<le> 2 ^ 52"
  shows "8 \<le> getMessageLength os p" "getMessageLength os p \<le> 2 ^ 53"
proof -
  have "i64 (Size p + 8) = Size p + 8"
    using assms by (intro i64_id) (simp add: is_i64_def)
  with assms show "8 \<le> getMessageLength os p" "getMessageLength os p \<le> 2 ^ 53"
    by (cases os; auto simp: getMessageLength_def linux_getMessageLength_def other_getMessageLength_def
        windows_getMessageLength_max)+
qed

lemma message_length_eq:
  assumes "0 \<le> Size p" "Size p \<le> 2 ^ 52"
  shows "getMessageLength os p = (if os = Windows then max (Size p + (if ipv4 p then 56 else 96)) 2048 else Size p + 8)"
proof -
  have "i64 (Size p + 8) = Size p + 8"
    using assms by (intro i64_id) (simp add: is_i64_def)
  with assms show ?thesis
    by (cases os) (auto simp: getMessageLength_def linux_getMessageLength_def other_getMessageLength_def
        windows_getMessageLength_max max_def)
qed

end
