(* ===== verification/Bpf_Filter.thy ===== *)
theory Bpf_Filter
  imports Platform
begin

text \<open>
  The socket filters of \<^verbatim>\<open>InstallICMPIDFilter\<close>, run by a BPF machine that is not part of the
  repository. The machine is a parameter \<open>vm\<close>: what it returns for the rest of a program, a
  packet, the accumulator and the index register. \<open>bpf_laws\<close> is its documented behaviour for
  the five instructions the filters use; \<open>bpf_run\<close> is a machine that has it, for the witnesses.
\<close>

type_synonym bpf_vm = "bpf_instr list \<Rightarrow> byte list \<Rightarrow> 32 word \<Rightarrow> nat \<Rightarrow> 32 word"

text \<open>A load of one or two bytes in network order, out of range outside the packet.\<close>

definition bpf_load :: "byte list \<Rightarrow> nat \<Rightarrow> nat \<Rightarrow> 32 word option" where
  "bpf_load pkt off n =
     (if length pkt < off + n then None
      else Some (foldl (\<lambda>a b. push_bit 8 a + ucast b) 0 (take n (drop off pkt))))"

text \<open>A load outside the packet ends the program with the value 0, which rejects.\<close>

definition bpf_laws :: "bpf_vm \<Rightarrow> bool" where
  "bpf_laws vm \<longleftrightarrow>
     (\<forall>off is pkt a x. vm (LoadMemShift off # is) pkt a x =
        (if off < length pkt then vm is pkt a (4 * unat (pkt ! off AND 0x0f)) else 0)) \<and>
     (\<forall>off n is pkt a x. vm (LoadAbsolute off n # is) pkt a x =
        (case bpf_load pkt off n of None \<Rightarrow> 0 | Some v \<Rightarrow> vm is pkt v x)) \<and>
     (\<forall>off n is pkt a x. vm (LoadIndirect off n # is) pkt a x =
        (case bpf_load pkt (x + off) n of None \<Rightarrow> 0 | Some v \<Rightarrow> vm is pkt v x)) \<and>
     (\<forall>v t f is pkt a x. vm (JumpIfEqual v t f # is) pkt a x = vm (drop (if a = v then t else f) is) pkt a x) \<and>
     (\<forall>v is pkt a x. vm (RetConstant v # is) pkt a x = v)"

text \<open>A machine with this behaviour.\<close>

function bpf_run :: bpf_vm where
  "bpf_run [] pkt a x = 0"
| "bpf_run (LoadMemShift off # is) pkt a x =
     (if off < length pkt then bpf_run is pkt a (4 * unat (pkt ! off AND 0x0f)) else 0)"
| "bpf_run (LoadAbsolute off n # is) pkt a x =
     (case bpf_load pkt off n of None \<Rightarrow> 0 | Some v \<Rightarrow> bpf_run is pkt v x)"
| "bpf_run (LoadIndirect off n # is) pkt a x =
     (case bpf_load pkt (x + off) n of None \<Rightarrow> 0 | Some v \<Rightarrow> bpf_run is pkt v x)"
| "bpf_run (JumpIfEqual v t f # is) pkt a x = bpf_run (drop (if a = v then t else f) is) pkt a x"
| "bpf_run (RetConstant v # is) pkt a x = v"
  by pat_completeness auto
termination by (relation "measure (\<lambda>(is, pkt, a, x). length is)") simp_all

lemma bpf_laws_run: "bpf_laws bpf_run"
  by (simp add: bpf_laws_def)

lemma bpf_laws_rules:
  assumes "bpf_laws vm"
  shows "vm (LoadMemShift off # is) pkt a x =
      (if off < length pkt then vm is pkt a (4 * unat (pkt ! off AND 0x0f)) else 0)"
    and "vm (LoadAbsolute off n # is) pkt a x = (case bpf_load pkt off n of None \<Rightarrow> 0 | Some v \<Rightarrow> vm is pkt v x)"
    and "vm (LoadIndirect off n # is) pkt a x = (case bpf_load pkt (x + off) n of None \<Rightarrow> 0 | Some v \<Rightarrow> vm is pkt v x)"
    and "vm (JumpIfEqual v t f # is) pkt a x = vm (drop (if a = v then t else f) is) pkt a x"
    and "vm (RetConstant v # is) pkt a x = v"
  using assms by (simp_all add: bpf_laws_def)

section \<open>What the filters accept\<close>

text \<open>The message at offset \<open>h\<close> is an echo reply of type \<open>t\<close> with the low 32 bits of \<open>i\<close> as its identifier.\<close>

definition reply_at :: "nat \<Rightarrow> byte \<Rightarrow> int \<Rightarrow> byte list \<Rightarrow> bool" where
  "reply_at h t i pkt \<longleftrightarrow> h + 6 \<le> length pkt \<and> pkt ! h = t \<and>
     256 * uint (pkt ! (h + 4)) + uint (pkt ! (h + 5)) = i mod 2 ^ 32"

lemma load_byte: "off < length pkt \<Longrightarrow> bpf_load pkt off 1 = Some (ucast (pkt ! off))"
  by (simp add: bpf_load_def take_Suc_conv_app_nth)

lemma load_two:
  assumes "off + 2 \<le> length pkt"
  shows "bpf_load pkt off 2 = Some (256 * ucast (pkt ! off) + ucast (pkt ! (off + 1)))"
proof -
  have "take 2 (drop off pkt) = [pkt ! off, pkt ! (off + 1)]"
    using assms by (intro nth_equalityI) (auto simp: less_2_cases_iff)
  then show ?thesis using assms
    by (simp add: bpf_load_def push_bit_eq_mult mult.commute)
qed

lemma byte_32_eq_iff: "(ucast (b :: byte) :: 32 word) = ucast (c :: byte) \<longleftrightarrow> b = c"
proof
  assume "(ucast b :: 32 word) = ucast c"
  then have "uint (ucast b :: 32 word) = uint (ucast c :: 32 word)" by simp
  then have "uint b = uint c" by (simp add: uint_up_ucast is_up)
  then show "b = c" by (simp add: word_uint_eq_iff)
qed simp

lemma two_bytes_eq_iff:
  fixes b c :: byte
  shows "(256 * ucast b + ucast c :: 32 word) = word_of_int i \<longleftrightarrow> 256 * uint b + uint c = i mod 2 ^ 32"
proof -
  have "(256 * uint b + uint c) mod 2 ^ 32 = 256 * uint b + uint c"
    using uint_lt2p [of b] uint_lt2p [of c] by (intro mod_pos_pos_trivial) (simp_all add: uint_ge_0)
  moreover have "(256 * ucast b + ucast c :: 32 word) = word_of_int (256 * uint b + uint c)" by simp
  ultimately show ?thesis by (simp only: word_of_int_eq_iff take_bit_eq_mod) simp
qed

text \<open>The last four instructions of both filters compare the identifier \<open>A\<close> holds.\<close>

lemma filter_tail:
  "bpf_laws vm \<Longrightarrow> vm [JumpIfEqual v 0 1, RetConstant (NOT 0), RetConstant 0] pkt a x = (if a = v then NOT 0 else 0)"
  by (simp add: bpf_laws_rules)

definition ip_header_length :: "byte list \<Rightarrow> nat" where
  "ip_header_length pkt = 4 * unat (pkt ! 0 AND 0x0f)"

lemma filter_v4_run:
  assumes vm: "bpf_laws vm"
  shows "vm (filter_v4 i) pkt 0 0 =
    (if pkt \<noteq> [] \<and> reply_at (ip_header_length pkt) 0 i pkt then NOT 0 else 0)"
proof (cases "pkt = []")
  case False
  let ?h = "ip_header_length pkt"
  note [simp] = bpf_laws_rules [OF vm] filter_tail [OF vm]
  have 1: "vm (filter_v4 i) pkt 0 0 = vm (drop 1 (filter_v4 i)) pkt 0 ?h"
    using False by (simp add: filter_v4_def ip_header_length_def)
  show ?thesis
  proof (cases "?h + 6 \<le> length pkt")
    case True
    then have "bpf_load pkt ?h (Suc 0) = Some (ucast (pkt ! ?h))"
      using load_byte [of ?h pkt] by simp
    moreover have "bpf_load pkt (?h + 4) 2 = Some (256 * ucast (pkt ! (?h + 4)) + ucast (pkt ! (?h + 5)))"
      using True load_two [of "?h + 4" pkt] by (simp add: numeral_eq_Suc)
    ultimately show ?thesis
      using True False byte_32_eq_iff [of "pkt ! ?h" 0] unfolding 1
      by (simp add: filter_v4_def reply_at_def two_bytes_eq_iff)
  next
    case short: False
    then have "bpf_load pkt (?h + 4) 2 = None" by (simp add: bpf_load_def)
    with short show ?thesis unfolding 1
      by (simp add: filter_v4_def reply_at_def split: option.split)
  qed
qed (simp add: filter_v4_def bpf_laws_rules [OF vm])

lemma filter_v6_run:
  assumes vm: "bpf_laws vm"
  shows "vm (filter_v6 i) pkt 0 0 = (if reply_at 0 129 i pkt then NOT 0 else 0)"
proof -
  note [simp] = bpf_laws_rules [OF vm] filter_tail [OF vm]
  show ?thesis
  proof (cases "6 \<le> length pkt")
    case True
    then have "bpf_load pkt 0 (Suc 0) = Some (ucast (pkt ! 0))"
      using load_byte [of 0 pkt] by (cases pkt) simp_all
    moreover have "bpf_load pkt 4 2 = Some (256 * ucast (pkt ! 4) + ucast (pkt ! 5))"
      using True load_two [of 4 pkt] by simp
    ultimately show ?thesis
      using True byte_32_eq_iff [of "pkt ! 0" 129]
      by (simp add: filter_v6_def reply_at_def two_bytes_eq_iff)
  next
    case short: False
    then have "bpf_load pkt 4 2 = None" by (simp add: bpf_load_def)
    with short show ?thesis
      by (simp add: filter_v6_def reply_at_def split: option.split)
  qed
qed

section \<open>Properties\<close>

text \<open>
  C20. On every BPF machine the IPv4 filter lets a datagram through exactly when, behind an IP
  header of the length its first byte gives, it holds an ICMP echo reply whose identifier is the
  given one modulo 2 to the 32; the machine's answer is then "the whole datagram".
\<close>

theorem filter_v4_accepts:
  assumes "bpf_laws vm"
  shows "vm (filter_v4 i) pkt 0 0 = (if pkt \<noteq> [] \<and> reply_at (ip_header_length pkt) 0 i pkt then NOT 0 else 0)"
  using assms by (rule filter_v4_run)

lemma reply_at_fits: "reply_at h t i pkt \<Longrightarrow> i mod 2 ^ 32 \<le> 65535"
  using uint_lt2p [of "pkt ! (h + 4)"] uint_lt2p [of "pkt ! (h + 5)"] by (simp add: reply_at_def)

text \<open>
  C21. The IPv6 filter, which sees the message without its IP header, accepts exactly the ICMPv6
  echo replies whose identifier is the given one modulo 2 to the 32. The code converts the
  identifier set by \<^verbatim>\<open>SetID\<close> to 32 bits; each filter lets some packet through exactly when what is left
  fits 16 bits. With any other identifier both reject everything, so such a pinger hears no reply.
\<close>

theorem filter_v6_accepts:
  assumes "bpf_laws vm"
  shows "(vm (filter_v6 i) pkt 0 0 \<noteq> 0 \<longleftrightarrow> reply_at 0 129 i pkt) \<and>
    (65535 < i mod 2 ^ 32 \<longrightarrow> vm (filter_v6 i) pkt 0 0 = 0 \<and> vm (filter_v4 i) pkt 0 0 = 0) \<and>
    ((\<exists>b. vm (filter_v6 i) b 0 0 \<noteq> 0) \<longleftrightarrow> i mod 2 ^ 32 \<le> 65535) \<and>
    ((\<exists>b. vm (filter_v4 i) b 0 0 \<noteq> 0) \<longleftrightarrow> i mod 2 ^ 32 \<le> 65535)"
proof -
  let ?k = "i mod 2 ^ 32"
  let ?m = "\<lambda>t. [t, 0, 0, 0, word_of_int (?k div 256), word_of_int ?k] :: byte list"
  have v6: "vm (filter_v6 i) b 0 0 \<noteq> 0 \<longleftrightarrow> reply_at 0 129 i b" for b
    using assms by (simp add: filter_v6_run)
  have v4: "vm (filter_v4 i) b 0 0 \<noteq> 0 \<longleftrightarrow> b \<noteq> [] \<and> reply_at (ip_header_length b) 0 i b" for b
    using assms by (simp add: filter_v4_run)
  have fits: "reply_at 0 129 i (?m 129)" "reply_at 20 0 i (0x45 # replicate 19 0 @ ?m 0)" if "?k \<le> 65535"
    using two_bytes_split [of ?k] that by (simp_all add: reply_at_def nth_append)
  have "ip_header_length (0x45 # replicate 19 0 @ ?m 0) = 20" by (simp add: ip_header_length_def)
  with fits(2) have "?k \<le> 65535 \<Longrightarrow> vm (filter_v4 i) (0x45 # replicate 19 0 @ ?m 0) 0 0 \<noteq> 0" unfolding v4 by simp
  moreover from fits(1) have "?k \<le> 65535 \<Longrightarrow> vm (filter_v6 i) (?m 129) 0 0 \<noteq> 0" unfolding v6 .
  moreover have "vm (filter_v6 i) b 0 0 = 0" "vm (filter_v4 i) b 0 0 = 0" if "\<not> ?k \<le> 65535" for b
    using v6 [of b] v4 [of b] reply_at_fits that by blast+
  ultimately show ?thesis using v6 by (meson not_le)
qed

section \<open>Witnesses\<close>

text \<open>A 20-byte IPv4 header, then an echo reply with identifier 258; and the reply alone for IPv6.\<close>

definition sample_v4 :: "byte list" where
  "sample_v4 = 0x45 # replicate 19 0 @ [0, 0, 0, 0, 1, 2, 0, 7]"

theorem filter_v4_accepts_witness:
  "bpf_run (filter_v4 258) sample_v4 0 0 = NOT 0 \<and> bpf_run (filter_v4 259) sample_v4 0 0 = 0"
  using filter_v4_accepts [OF bpf_laws_run, of 258 sample_v4] filter_v4_accepts [OF bpf_laws_run, of 259 sample_v4]
  by (simp add: sample_v4_def reply_at_def ip_header_length_def nth_append)

theorem filter_v6_accepts_witness:
  "bpf_run (filter_v6 258) [129, 0, 0, 0, 1, 2] 0 0 \<noteq> 0 \<and> bpf_run (filter_v6 (- 1)) [129, 0, 0, 0, 1, 2] 0 0 = 0"
  using filter_v6_accepts [OF bpf_laws_run, of 258 "[129, 0, 0, 0, 1, 2]"]
    filter_v6_accepts [OF bpf_laws_run, of "- 1" "[129, 0, 0, 0, 1, 2]"]
  by (simp add: reply_at_def)

end
