(* ===== verification/Pinger_Resolve.thy ===== *)
theory Pinger_Resolve
  imports Pinger_State
begin

text \<open>
  \<^verbatim>\<open>NewPinger\<close>, \<^verbatim>\<open>Resolve\<close> and \<^verbatim>\<open>SetAddr\<close> of \<^verbatim>\<open>ping.go\<close>. The two resolvers of
  package \<^verbatim>\<open>net\<close> are the parameters in the record \<open>resolver\<close>: their answers depend on the
  network outside. A configuration call is a value of \<open>config_call\<close>, so that sequences of
  calls a client makes before a run can be reasoned about.
\<close>

section \<open>Resolve\<close>

text \<open>
  \<open>LookupIP\<close> is \<^verbatim>\<open>net.DefaultResolver.LookupIP\<close> under a context that expires after the given
  time, \<open>ResolveIPAddr\<close> is \<^verbatim>\<open>net.ResolveIPAddr\<close>, whose result is a pointer.
\<close>

record resolver =
  LookupIP :: "duration \<Rightarrow> string \<Rightarrow> string \<Rightarrow> go_error + ip list"
  ResolveIPAddr :: "string \<Rightarrow> string \<Rightarrow> go_error + ip_addr option"

definition ip_of :: "ip \<Rightarrow> ip_addr" where
  "ip_of a = \<lparr>IP = a, Zone = ''''\<rparr>"

text \<open>The loop over the addresses, with \<open>a\<close> the current choice.\<close>

primrec pick_ip :: "string \<Rightarrow> ip list \<Rightarrow> ip_addr \<Rightarrow> ip_addr" where
  "pick_ip n [] a = a"
| "pick_ip n (x # xs) a =
     (if n = networkIPv6 then
        if To4 x = None \<and> To16 x \<noteq> None then ip_of x
        else pick_ip n xs a
      else if To4 x \<noteq> None then pick_ip n xs (ip_of x)
      else pick_ip n xs a)"

definition Resolve :: "resolver \<Rightarrow> 'u pinger \<Rightarrow> (go_error option \<times> 'u pinger) go" where
  "Resolve rs p =
     (if length (addr p) = 0 then Inr (Some E_addr_empty, p)
      else
        let looked_up =
          (if ResolveTimeout p > 0 then
             (case LookupIP rs (ResolveTimeout p) (network p) (addr p) of
                Inl err \<Rightarrow> Inl err
              | Inr ips \<Rightarrow>
                 if length ips = 0 then Inl (E_no_addresses (addr p))
                 else Inr (Some (pick_ip (network p) ips (ip_of (ips ! 0)))))
           else ResolveIPAddr rs (network p) (addr p))
        in case looked_up of
             Inl err \<Rightarrow> Inr (Some err, p)
           | Inr None \<Rightarrow> Inl NilDereference
           | Inr (Some a) \<Rightarrow>
              (let p = p\<lparr>ipv4 := isIPv4 (IP a)\<rparr>;
                   p = p\<lparr>ipaddr := Some a\<rparr>
               in Inr (None, p)))"

definition NewPinger :: "resolver \<Rightarrow> string \<Rightarrow> int \<Rightarrow> 'u \<Rightarrow> (go_error option \<times> 'u pinger) go" where
  "NewPinger rs a r u = Resolve rs (New a r u)"

definition SetAddr :: "resolver \<Rightarrow> string \<Rightarrow> 'u pinger \<Rightarrow> (go_error option \<times> 'u pinger) go" where
  "SetAddr rs a p =
     (let oldAddr = addr p;
          p = p\<lparr>addr := a\<rparr>
      in go_bind (Resolve rs p) (\<lambda>(err, p).
           if err \<noteq> None then
             let p = p\<lparr>addr := oldAddr\<rparr>
             in Inr (err, p)
           else Inr (None, p)))"

section \<open>The choice of an address\<close>

lemma pick_ip_v6: "pick_ip networkIPv6 xs a =
    (case filter (\<lambda>x. To4 x = None \<and> To16 x \<noteq> None) xs of [] \<Rightarrow> a | x # _ \<Rightarrow> ip_of x)"
  by (induction xs) auto

lemma pick_ip_other: "n \<noteq> networkIPv6 \<Longrightarrow> pick_ip n xs a =
    (let vs = filter (\<lambda>x. To4 x \<noteq> None) xs in if vs = [] then a else ip_of (last vs))"
  by (induction xs arbitrary: a) (auto simp: Let_def)

lemma pick_ip_mem: "pick_ip n xs a = a \<or> (\<exists>x \<in> set xs. pick_ip n xs a = ip_of x)"
  by (induction xs arbitrary: a) (simp_all, metis)

section \<open>Cases of Resolve\<close>

text \<open>An error leaves the pinger as it was; a success sets the address and the family flag only.\<close>

lemma Resolve_Inr_cases:
  assumes "Resolve rs p = Inr (err, q)"
  shows "(\<exists>e. err = Some e \<and> q = p) \<or> (\<exists>a. err = None \<and> q = p\<lparr>ipv4 := isIPv4 (IP a), ipaddr := Some a\<rparr>)"
  using assms by (simp add: Resolve_def Let_def split: if_splits sum.splits option.splits) auto

lemma Resolve_fields:
  assumes "Resolve rs p = Inr (err, q)"
  shows "addr q = addr p" "done_chan q = done_chan p" "p_logger q = p_logger p" "Size q = Size p"
    "trackerUUIDs q = trackerUUIDs p" "awaitingSequences q = awaitingSequences p"
  using Resolve_Inr_cases [OF assms] by auto

section \<open>Sequences of configuration calls\<close>

datatype config_call =
    CallSetAddr string
  | CallSetIPAddr "ip_addr option"
  | CallResolve
  | CallSetNetwork string
  | CallSetPrivileged bool
  | CallSetLogger "logger option"
  | CallSetID int
  | CallSetMark int
  | CallSetDoNotFragment bool
  | CallSetTrafficClass byte

fun apply_call :: "resolver \<Rightarrow> (ip_addr option \<Rightarrow> string) \<Rightarrow> config_call \<Rightarrow> 'u pinger \<Rightarrow> 'u pinger go" where
  "apply_call rs str (CallSetAddr a) p = go_bind (SetAddr rs a p) (\<lambda>(err, p). Inr p)"
| "apply_call rs str (CallSetIPAddr a) p = SetIPAddr str a p"
| "apply_call rs str CallResolve p = go_bind (Resolve rs p) (\<lambda>(err, p). Inr p)"
| "apply_call rs str (CallSetNetwork n) p = Inr (SetNetwork n p)"
| "apply_call rs str (CallSetPrivileged b) p = Inr (SetPrivileged b p)"
| "apply_call rs str (CallSetLogger l) p = Inr (SetLogger l p)"
| "apply_call rs str (CallSetID i) p = Inr (SetID i p)"
| "apply_call rs str (CallSetMark m) p = Inr (SetMark m p)"
| "apply_call rs str (CallSetDoNotFragment b) p = Inr (SetDoNotFragment b p)"
| "apply_call rs str (CallSetTrafficClass tc) p = Inr (SetTrafficClass tc p)"

primrec apply_calls :: "resolver \<Rightarrow> (ip_addr option \<Rightarrow> string) \<Rightarrow> config_call list \<Rightarrow> 'u pinger \<Rightarrow> 'u pinger go" where
  "apply_calls rs str [] p = Inr p"
| "apply_calls rs str (k # ks) p = go_bind (apply_call rs str k p) (apply_calls rs str ks)"

text \<open>
  What every configuration call keeps: the family flag is that of the address, the network and
  the protocol are among the known ones, and the pinger's run state is the initial one.
\<close>

definition configured :: "'u \<Rightarrow> 'u pinger \<Rightarrow> bool" where
  "configured u p \<longleftrightarrow>
     (\<forall>a. ipaddr p = Some a \<longrightarrow> ipv4 p = isIPv4 (IP a)) \<and>
     network p \<in> {networkIP, networkIPv4, networkIPv6} \<and>
     protocol p \<in> {''icmp'', ''udp''} \<and>
     trackerUUIDs p = [u] \<and> awaitingSequences p = [u \<mapsto> {}] \<and> sequence p = 0 \<and>
     PacketsSent p = 0 \<and> PacketsRecv p = 0 \<and> PacketsRecvDuplicates p = 0 \<and> done_chan p = OpenChan"

lemma configured_New: "configured u (New a r u)"
  by (simp add: configured_def New_def)

lemma configured_Resolve:
  assumes "configured u p" "Resolve rs p = Inr (err, q)"
  shows "configured u q"
  using Resolve_Inr_cases [OF assms(2)] assms(1) by (auto simp: configured_def)

lemma configured_addr [simp]: "configured u (p\<lparr>addr := a\<rparr>) = configured u p"
  by (simp add: configured_def)

lemma configured_setters:
  assumes "configured u p"
  shows "configured u (p\<lparr>ipv4 := isIPv4 (IP a), ipaddr := Some a\<rparr>)"
    "configured u (SetNetwork n p)" "configured u (SetPrivileged b p)" "configured u (SetLogger l p)"
    "configured u (SetID i p)" "configured u (SetMark m p)" "configured u (SetDoNotFragment b p)"
    "configured u (SetTrafficClass tc p)"
  using assms
  by (simp_all add: configured_def SetNetwork_def SetPrivileged_def SetLogger_def SetID_def SetMark_def
      SetDoNotFragment_def SetTrafficClass_def)

lemma SetAddr_Inr:
  assumes "SetAddr rs a p = Inr (err, q)"
  shows "\<exists>e r. Resolve rs (p\<lparr>addr := a\<rparr>) = Inr (e, r) \<and>
    (err, q) = (if e \<noteq> None then (e, r\<lparr>addr := addr p\<rparr>) else (None, r))"
proof (cases "Resolve rs (p\<lparr>addr := a\<rparr>)")
  case (Inr er)
  obtain e r where er: "er = (e, r)" by (cases er)
  have "SetAddr rs a p = Inr (if e \<noteq> None then (e, r\<lparr>addr := addr p\<rparr>) else (None, r))"
    by (cases e) (simp_all add: SetAddr_def Inr er)
  with assms show ?thesis unfolding Inr er by simp
next
  case (Inl e)
  then have "SetAddr rs a p = Inl e" by (simp add: SetAddr_def)
  with assms show ?thesis by simp
qed

lemma configured_SetAddr:
  assumes "SetAddr rs a p = Inr (err, q)" "configured u p"
  shows "configured u q"
proof -
  from assms(1) obtain e r where r: "Resolve rs (p\<lparr>addr := a\<rparr>) = Inr (e, r)" and "q = r \<or> q = r\<lparr>addr := addr p\<rparr>"
    by (auto simp: SetAddr_def Let_def go_bind_Inr_iff split: if_splits)
  moreover have "configured u r" using configured_Resolve [OF _ r] assms(2) by simp
  ultimately show ?thesis by auto
qed

lemma configured_call:
  assumes "apply_call rs str k p = Inr q" "configured u p"
  shows "configured u q"
  using assms
  by (cases k) (auto simp: SetIPAddr_def go_bind_Inr_iff configured_setters Let_def
      intro: configured_Resolve configured_SetAddr split: option.splits)

lemma configured_calls:
  "apply_calls rs str ks p = Inr q \<Longrightarrow> configured u p \<Longrightarrow> configured u q"
  by (induction ks arbitrary: p) (auto simp: go_bind_Inr_iff dest: configured_call)

section \<open>Properties\<close>

text \<open>
  C33. Whatever sequence of setters, \<^verbatim>\<open>SetAddr\<close> and \<^verbatim>\<open>Resolve\<close> calls follows \<^verbatim>\<open>New\<close>, with
  any answers of the resolvers, the family flag agrees with the target address, the network and
  the protocol are known ones (so \<^verbatim>\<open>listen\<close> never passes an empty network name), and the run
  state (tracker, sequence number, counters, stop channel) is still the initial one.
\<close>

theorem configuration_invariant:
  assumes "apply_calls rs str ks (New a r u) = Inr p"
  shows "configured u p \<and> ipv4Proto (protocol p) \<noteq> '''' \<and> ipv6Proto (protocol p) \<noteq> ''''"
  using configured_calls [OF assms configured_New]
  by (auto simp: configured_def ipv4Proto_def ipv6Proto_def)

text \<open>
  C34. \<^verbatim>\<open>SetAddr\<close> is atomic: if resolving fails, the pinger is exactly what it was, the old
  address included; if it succeeds, the new address text, its resolution and the family flag are
  set together and nothing else changes.
\<close>

theorem SetAddr_atomic:
  assumes "SetAddr rs a p = Inr (err, q)"
  shows "(err \<noteq> None \<longrightarrow> q = p) \<and>
    (err = None \<longrightarrow> (\<exists>v. q = p\<lparr>addr := a, ipv4 := isIPv4 (IP v), ipaddr := Some v\<rparr>))"
proof -
  obtain e r where r: "Resolve rs (p\<lparr>addr := a\<rparr>) = Inr (e, r)"
    and q: "(err, q) = (if e \<noteq> None then (e, r\<lparr>addr := addr p\<rparr>) else (None, r))"
    using SetAddr_Inr [OF assms] by blast
  from Resolve_Inr_cases [OF r] show ?thesis
  proof (elim disjE exE conjE)
    fix x assume "e = Some x" "r = p\<lparr>addr := a\<rparr>"
    with q show ?thesis by simp
  next
    fix v assume "e = None" "r = p\<lparr>addr := a\<rparr>\<lparr>ipv4 := isIPv4 (IP v), ipaddr := Some v\<rparr>"
    with q have "err = None" "q = p\<lparr>addr := a, ipv4 := isIPv4 (IP v), ipaddr := Some v\<rparr>" by simp_all
    then show ?thesis by blast
  qed
qed

text \<open>
  C35. Which address a timed lookup settles on: for the network "ip6" the first of the returned
  addresses that is IPv6 and not IPv4; for the others the last that is IPv4; and in both cases
  the first address returned when there is none. The answer never depends on anything else, and
  an empty answer is an error.
\<close>

theorem Resolve_choice:
  assumes "addr p \<noteq> ''''" "0 < ResolveTimeout p" "LookupIP rs (ResolveTimeout p) (network p) (addr p) = Inr ips"
  shows "Resolve rs p =
    (if ips = [] then Inr (Some (E_no_addresses (addr p)), p)
     else let v6 = filter (\<lambda>x. To4 x = None \<and> To16 x \<noteq> None) ips;
              v4 = filter (\<lambda>x. To4 x \<noteq> None) ips;
              a = (if network p = networkIPv6 then hd (v6 @ ips) else last (hd ips # v4))
          in Inr (None, p\<lparr>ipv4 := isIPv4 a, ipaddr := Some (ip_of a)\<rparr>))"
  using assms
  by (cases ips) (auto simp: Resolve_def Let_def pick_ip_v6 pick_ip_other ip_of_def split: list.split)

section \<open>Witnesses\<close>

text \<open>A resolver that knows one name with two IPv4 addresses and one IPv6 address.\<close>

definition sample_resolver :: resolver where
  "sample_resolver = \<lparr>
     LookupIP = (\<lambda>t n a. if a = ''h'' then Inr [[10, 0, 0, 1], replicate 15 0 @ [1], [10, 0, 0, 2]] else Inl (ExternalError 0)),
     ResolveIPAddr = (\<lambda>n a. if a = ''h'' then Inr (Some (ip_of [10, 0, 0, 1])) else Inl (ExternalError 0))\<rparr>"

definition sample_calls :: "config_call list" where
  "sample_calls = [CallSetNetwork ''ip7'', CallSetAddr ''x'', CallSetAddr ''h'', CallSetPrivileged True]"

theorem configuration_invariant_witness:
  "\<exists>p. apply_calls sample_resolver (\<lambda>_. ''s'') sample_calls (New ''g'' 7 (0 :: nat)) = Inr p \<and> ipv4 p \<and>
     addr p = ''h'' \<and> configured 0 p"
proof -
  obtain p where p: "apply_calls sample_resolver (\<lambda>_. ''s'') sample_calls (New ''g'' 7 (0 :: nat)) = Inr p"
    "ipv4 p" "addr p = ''h''"
    by (simp add: sample_calls_def sample_resolver_def SetAddr_def Resolve_def New_def Let_def SetNetwork_def
        SetPrivileged_def networkIPv4_def networkIPv6_def networkIP_def ip_of_def isIPv4_def To4_def)
  with configuration_invariant [OF p(1)] show ?thesis by auto
qed

theorem SetAddr_atomic_witness:
  "\<exists>q. SetAddr sample_resolver ''x'' (New ''g'' 7 (0 :: nat)) = Inr (Some (ExternalError 0), q) \<and> q = New ''g'' 7 0"
proof -
  obtain q where q: "SetAddr sample_resolver ''x'' (New ''g'' 7 (0 :: nat)) = Inr (Some (ExternalError 0), q)"
    by (simp add: sample_resolver_def SetAddr_def Resolve_def New_def Let_def)
  with SetAddr_atomic [OF q] show ?thesis by auto
qed

theorem Resolve_choice_witness:
  "\<exists>p. Resolve sample_resolver ((New ''h'' 7 (0 :: nat))\<lparr>ResolveTimeout := 1\<rparr>) = Inr (None, p) \<and>
     ipaddr p = Some (ip_of [10, 0, 0, 2])"
  using Resolve_choice [of "(New ''h'' 7 (0 :: nat))\<lparr>ResolveTimeout := 1\<rparr>" sample_resolver
      "[[10, 0, 0, 1], replicate 15 0 @ [1], [10, 0, 0, 2]]"]
  by (simp add: New_def sample_resolver_def networkIP_def networkIPv6_def To4_def Let_def v4_prefix_def numeral_eq_Suc)

end
