(* ===== verification/Pinger_Stats.thy ===== *)
theory Pinger_Stats
  imports Pinger_State
begin

text \<open>
  The statistics of \<^verbatim>\<open>ping.go\<close>: \<^verbatim>\<open>updateStatistics\<close>, which folds one received packet into the
  running minimum, maximum, average and deviation, and \<^verbatim>\<open>Statistics\<close>, which reports them with
  the packet loss. The locale \<open>accumulator\<close> lifts an invariant of one update to a whole
  sequence; it is interpreted three times, for what was recorded, for the average and for the
  deviation, and the properties at the end are read off these interpretations.
\<close>

section \<open>updateStatistics and Statistics\<close>

definition updateStatistics :: "packet_info \<Rightarrow> 'u pinger \<Rightarrow> 'u pinger go" where
  "updateStatistics pkt p =
     (let p = p\<lparr>PacketsRecv := i64 (PacketsRecv p + 1)\<rparr>;
          p = (if RecordRtts p then p\<lparr>rtts := rtts p @ [Rtt pkt]\<rparr> else p);
          p = (if RecordTTLs p then p\<lparr>ttls := ttls p @ [word_of_int (PktTTL pkt)]\<rparr> else p);
          p = (if PacketsRecv p = 1 \<or> Rtt pkt < minRtt p then p\<lparr>minRtt := Rtt pkt\<rparr> else p);
          p = (if Rtt pkt > maxRtt p then p\<lparr>maxRtt := Rtt pkt\<rparr> else p);
          pktCount = PacketsRecv p;
          delta = i64 (Rtt pkt - avgRtt p)
      in if pktCount = 0 then Inl DivideByZero
         else let p = p\<lparr>avgRtt := i64 (avgRtt p + i64 (delta sdiv pktCount))\<rparr>;
                  delta2 = i64 (Rtt pkt - avgRtt p);
                  p = p\<lparr>stddevm2 := f64_add (stddevm2 p) (f64_mul (f64_of_int delta) (f64_of_int delta2))\<rparr>;
                  p = p\<lparr>stdDevRtt := f64_to_i64 (f64_sqrt (f64_div (stddevm2 p) (f64_of_int pktCount)))\<rparr>
              in Inr p)"

definition packet_loss :: "int \<Rightarrow> int \<Rightarrow> float64" where
  "packet_loss sent recv =
     (if sent > 0 then f64_mul (f64_div (f64_of_int (i64 (sent - recv))) (f64_of_int sent)) (f64_of_int 100)
      else Fin 0)"

definition Statistics :: "'u pinger \<Rightarrow> statistics" where
  "Statistics p =
     (let sent = PacketsSent p;
          loss = packet_loss sent (PacketsRecv p)
      in \<lparr>st_PacketsRecv = PacketsRecv p,
          st_PacketsSent = sent,
          st_PacketsRecvDuplicates = PacketsRecvDuplicates p,
          st_PacketLoss = loss,
          st_IPAddr = ipaddr p,
          st_Addr = addr p,
          st_Rtts = rtts p,
          st_TTLs = ttls p,
          st_MinRtt = minRtt p,
          st_MaxRtt = maxRtt p,
          st_AvgRtt = avgRtt p,
          st_StdDevRtt = stdDevRtt p\<rparr>)"

text \<open>The statistics after a sequence of packets.\<close>

primrec update_all :: "packet_info list \<Rightarrow> 'u pinger \<Rightarrow> 'u pinger go" where
  "update_all [] p = Inr p"
| "update_all (x # xs) p = go_bind (updateStatistics x p) (update_all xs)"

section \<open>One update, field by field\<close>

text \<open>The running average and Welford's accumulator after the \<open>n\<close>-th value \<open>x\<close>.\<close>

definition next_avg :: "int \<Rightarrow> int \<Rightarrow> int \<Rightarrow> int" where
  "next_avg n a x = i64 (a + i64 (i64 (x - a) sdiv n))"

definition next_m2 :: "int \<Rightarrow> int \<Rightarrow> float64 \<Rightarrow> int \<Rightarrow> float64" where
  "next_m2 n a m x = f64_add m (f64_mul (f64_of_int (i64 (x - a))) (f64_of_int (i64 (x - next_avg n a x))))"

definition std_dev :: "int \<Rightarrow> float64 \<Rightarrow> int" where
  "std_dev n m = f64_to_i64 (f64_sqrt (f64_div m (f64_of_int n)))"

text \<open>A conditional update as an update with a conditional value.\<close>

lemma if_updates:
  fixes p :: "'u pinger"
  shows "(if b then p\<lparr>rtts := v1\<rparr> else p) = p\<lparr>rtts := if b then v1 else rtts p\<rparr>"
    and "(if b then p\<lparr>ttls := v2\<rparr> else p) = p\<lparr>ttls := if b then v2 else ttls p\<rparr>"
    and "(if b then p\<lparr>minRtt := v3\<rparr> else p) = p\<lparr>minRtt := if b then v3 else minRtt p\<rparr>"
    and "(if b then p\<lparr>maxRtt := v3\<rparr> else p) = p\<lparr>maxRtt := if b then v3 else maxRtt p\<rparr>"
  by simp_all

lemma updateStatistics_fields:
  fixes p :: "'u pinger" and k :: packet_info
  assumes "i64 (PacketsRecv p + 1) \<noteq> 0"
  defines "n \<equiv> i64 (PacketsRecv p + 1)"
  defines "m \<equiv> next_m2 n (avgRtt p) (stddevm2 p) (Rtt k)"
  shows "updateStatistics k p = Inr (p\<lparr>
    PacketsRecv := n,
    rtts := (if RecordRtts p then rtts p @ [Rtt k] else rtts p),
    ttls := (if RecordTTLs p then ttls p @ [word_of_int (PktTTL k)] else ttls p),
    minRtt := (if n = 1 \<or> Rtt k < minRtt p then Rtt k else minRtt p),
    maxRtt := max (maxRtt p) (Rtt k),
    avgRtt := next_avg n (avgRtt p) (Rtt k),
    stddevm2 := m,
    stdDevRtt := std_dev n m\<rparr>)"
  using assms(1) unfolding m_def n_def updateStatistics_def if_updates
  by (simp add: Let_def next_avg_def next_m2_def std_dev_def max_def)

lemma updateStatistics_sent: "updateStatistics k p = Inr q \<Longrightarrow> PacketsSent q = PacketsSent p"
  by (cases "i64 (PacketsRecv p + 1) = 0")
    (auto simp: updateStatistics_fields, simp add: updateStatistics_def if_updates Let_def)

text \<open>The counter being \<open>n\<close> values old, the next update is the \<open>n + 1\<close>-st and does not panic.\<close>

lemma i64_count: "n < 2 ^ 63 - 1 \<Longrightarrow> i64 (int n + 1) = int n + 1"
  by (rule i64_id) (simp add: is_i64_def)

section \<open>Accumulating over a sequence\<close>

text \<open>
  An accumulator keeps an invariant that relates its state to the values it has seen. The
  lemma lifts one step to a sequence: no update panics, and the invariant holds at the end.
\<close>

locale accumulator =
  fixes upd :: "'x \<Rightarrow> 's \<Rightarrow> 's go"
    and upds :: "'x list \<Rightarrow> 's \<Rightarrow> 's go"
    and inv :: "'x list \<Rightarrow> 's \<Rightarrow> bool"
    and ok :: "'x \<Rightarrow> bool"
    and limit :: nat
  assumes upds_Nil: "upds [] s = Inr s"
    and upds_Cons: "upds (x # xs) s = go_bind (upd x s) (upds xs)"
    and step: "inv xs s \<Longrightarrow> ok x \<Longrightarrow> length xs < limit \<Longrightarrow> \<exists>t. upd x s = Inr t \<and> inv (xs @ [x]) t"
begin

lemma run:
  "inv ys s \<Longrightarrow> list_all ok xs \<Longrightarrow> length (ys @ xs) \<le> limit \<Longrightarrow> \<exists>t. upds xs s = Inr t \<and> inv (ys @ xs) t"
proof (induction xs arbitrary: ys s)
  case Nil
  then show ?case by (simp add: upds_Nil)
next
  case (Cons x xs)
  then obtain u where u: "upd x s = Inr u" "inv (ys @ [x]) u"
    using step [of ys s x] by auto
  from Cons.IH [OF u(2)] Cons.prems(2,3) obtain t where "upds xs u = Inr t" "inv ((ys @ [x]) @ xs) t"
    by auto
  then show ?case by (simp add: upds_Cons u(1))
qed

end

subsection \<open>Counts, minimum, maximum and the recorded lists\<close>

definition seen_inv :: "bool \<Rightarrow> bool \<Rightarrow> packet_info list \<Rightarrow> 'u pinger \<Rightarrow> bool" where
  "seen_inv rr rt xs p \<longleftrightarrow> PacketsRecv p = int (length xs) \<and>
     RecordRtts p = rr \<and> rtts p = (if rr then map Rtt xs else []) \<and>
     RecordTTLs p = rt \<and> ttls p = (if rt then map (\<lambda>k. word_of_int (PktTTL k)) xs else []) \<and>
     maxRtt p = Max (insert 0 (Rtt ` set xs)) \<and>
     (xs \<noteq> [] \<longrightarrow> minRtt p = Min (Rtt ` set xs))"

lemma min_if: "min x m = (if x < m then x else m :: int)"
  by simp

lemma seen_inv_step:
  assumes "seen_inv rr rt xs p" "length xs < 2 ^ 63 - 1"
  shows "\<exists>q. updateStatistics x p = Inr q \<and> seen_inv rr rt (xs @ [x]) q"
proof -
  have n: "i64 (PacketsRecv p + 1) = int (length xs) + 1"
    using assms i64_count [of "length xs"] by (simp add: seen_inv_def)
  have mx: "Max (insert 0 (Rtt ` set (xs @ [x]))) = max (Max (insert 0 (Rtt ` set xs))) (Rtt x)"
    by (simp add: insert_commute [of 0] max.commute)
  have mn: "Min (Rtt ` set (xs @ [x])) = (if xs = [] \<or> Rtt x < Min (Rtt ` set xs) then Rtt x else Min (Rtt ` set xs))"
    using Min_insert [of "Rtt ` set xs" "Rtt x"] min_if [of "Rtt x" "Min (Rtt ` set xs)"]
    by (cases "xs = []") simp_all
  show ?thesis
    using assms(1) n unfolding seen_inv_def mx mn
    by (cases "xs = []") (auto simp: updateStatistics_fields simp del: Min_gr_iff)
qed

interpretation seen: accumulator updateStatistics update_all "seen_inv rr rt" "\<lambda>_. True" "2 ^ 63 - 1"
  for rr rt
  by unfold_locales (rule update_all.simps, rule update_all.simps, rule seen_inv_step)

subsection \<open>The average\<close>

lemma next_avg_exact:
  assumes "0 < n" "is_i64 a" "is_i64 x" "is_i64 (x - a)"
  shows "next_avg n a x = a + (x - a) sdiv n"
    and "min a x \<le> next_avg n a x" "next_avg n a x \<le> max a x"
proof -
  let ?d = "x - a"
  have b: "(0 \<le> ?d \<and> 0 \<le> ?d sdiv n \<and> ?d sdiv n \<le> ?d) \<or> (?d \<le> 0 \<and> ?d \<le> ?d sdiv n \<and> ?d sdiv n \<le> 0)"
    using sdiv_pos_between [OF assms(1)] by (metis linear)
  then have "is_i64 (a + ?d sdiv n)" using assms(2,3) unfolding is_i64_def by linarith
  then show eq: "next_avg n a x = a + (x - a) sdiv n"
    using assms(4) by (simp add: next_avg_def i64_id)
  show "min a x \<le> next_avg n a x" "next_avg n a x \<le> max a x"
    unfolding eq using b by auto
qed

text \<open>
  Every division drops less than one nanosecond times the count, so \<open>n\<close> times the average
  is off the sum by at most \<open>0 + 1 + \<dots> + (n - 1)\<close>.
\<close>

lemma next_avg_error:
  assumes "0 < n" "is_i64 a" "is_i64 x" "is_i64 (x - a)"
    and "2 * \<bar>(n - 1) * a - S\<bar> \<le> (n - 1) * (n - 2)"
  shows "2 * \<bar>n * next_avg n a x - (S + x)\<bar> \<le> n * (n - 1)"
proof -
  let ?d = "x - a"
  have r: "\<bar>?d smod n\<bar> \<le> n - 1"
    using assms(1) by (auto simp: smod_int_alt_def abs_mult sgn_if intro: order_trans [OF _ zle_diff1_eq [THEN iffD2]])
  have "n * (?d sdiv n) = ?d - ?d smod n"
    using sdiv_mult_smod_eq [of ?d n] by (simp add: algebra_simps)
  then have "n * next_avg n a x - (S + x) = ((n - 1) * a - S) - ?d smod n"
    unfolding next_avg_exact(1) [OF assms(1-4)] by (simp add: algebra_simps)
  then have "\<bar>n * next_avg n a x - (S + x)\<bar> \<le> \<bar>(n - 1) * a - S\<bar> + (n - 1)" using r by linarith
  then have "2 * \<bar>n * next_avg n a x - (S + x)\<bar> \<le> 2 * \<bar>(n - 1) * a - S\<bar> + 2 * (n - 1)" by simp
  also have "\<dots> \<le> (n - 1) * (n - 2) + 2 * (n - 1)" using assms(5) by simp
  also have "\<dots> = n * (n - 1)" by (simp add: algebra_simps)
  finally show ?thesis .
qed

definition mean_inv :: "int \<Rightarrow> int \<Rightarrow> packet_info list \<Rightarrow> 'u pinger \<Rightarrow> bool" where
  "mean_inv lo hi xs p \<longleftrightarrow> PacketsRecv p = int (length xs) \<and>
     (if xs = [] then avgRtt p = 0 else lo \<le> avgRtt p \<and> avgRtt p \<le> hi) \<and>
     2 * \<bar>int (length xs) * avgRtt p - sum_list (map Rtt xs)\<bar> \<le> int (length xs) * (int (length xs) - 1)"

lemma mean_inv_step:
  assumes inv: "mean_inv lo hi xs p" and len: "length xs < 2 ^ 63 - 1"
    and rng: "is_i64 lo" "is_i64 hi" "hi - lo < 2 ^ 63" and x: "lo \<le> Rtt x" "Rtt x \<le> hi"
  shows "\<exists>q. updateStatistics x p = Inr q \<and> mean_inv lo hi (xs @ [x]) q"
proof -
  let ?n = "int (length xs) + 1"
  have n: "i64 (PacketsRecv p + 1) = ?n" using inv len i64_count [of "length xs"] by (simp add: mean_inv_def)
  have i: "is_i64 (avgRtt p)" "is_i64 (Rtt x)" "is_i64 (Rtt x - avgRtt p)"
    using inv rng x by (auto simp: mean_inv_def is_i64_def split: if_splits)
  have err: "2 * \<bar>?n * next_avg ?n (avgRtt p) (Rtt x) - (sum_list (map Rtt xs) + Rtt x)\<bar> \<le> ?n * (?n - 1)"
    using inv i by (intro next_avg_error) (simp_all add: mean_inv_def algebra_simps)
  have bnd: "lo \<le> next_avg ?n (avgRtt p) (Rtt x) \<and> next_avg ?n (avgRtt p) (Rtt x) \<le> hi"
  proof (cases "xs = []")
    case True
    then show ?thesis using next_avg_exact(1) [of 1 0 "Rtt x"] inv i x by (simp add: mean_inv_def)
  next
    case False
    then show ?thesis using next_avg_exact(2,3) [of ?n, OF _ i] inv x by (auto simp: mean_inv_def min_def max_def split: if_splits)
  qed
  show ?thesis
    using inv n err bnd by (simp add: updateStatistics_fields mean_inv_def algebra_simps)
qed

subsection \<open>The standard deviation\<close>

lemma rnd_abs: "\<bar>rnd x\<bar> = rnd \<bar>x\<bar>"
  using rnd_nonneg [of "\<bar>x\<bar>"] rnd_minus [of x] by (cases "0 \<le> x") simp_all

lemma f64_product_bound:
  fixes d e :: int
  assumes "\<bar>d\<bar> \<le> 2 ^ k" "\<bar>e\<bar> \<le> 2 ^ k" "k \<le> 63" "0 \<le> d \<and> 0 \<le> e \<or> d \<le> 0 \<and> e \<le> 0"
  shows "\<exists>u. f64_mul (f64_of_int d) (f64_of_int e) = Fin u \<and> 0 \<le> u \<and> u \<le> pow2 (2 * int k)"
proof -
  have "(2 :: int) ^ k \<le> 2 ^ 63" using assms(3) by (rule power_increasing) simp
  then have f: "f64_of_int d = Fin (rnd (of_int d))" "f64_of_int e = Fin (rnd (of_int e))"
    using assms(1,2) by (auto intro!: f64_of_int_Fin)
  have le: "rnd \<bar>of_int c\<bar> \<le> pow2 (int k)" if "\<bar>c\<bar> \<le> 2 ^ k" for c :: int
  proof (rule rnd_le_pow2)
    have "(of_int \<bar>c\<bar> :: rat) \<le> of_int (2 ^ k)" using that by (simp only: of_int_le_iff)
    then show "\<bar>of_int c\<bar> \<le> pow2 (int k)" by simp
  qed simp_all
  let ?t = "rnd (of_int d) * rnd (of_int e)"
  have eq: "?t = rnd \<bar>of_int d\<bar> * rnd \<bar>of_int e\<bar>"
    using assms(4) rnd_minus [of "of_int d"] rnd_minus [of "of_int e"] by auto
  have t0: "0 \<le> ?t" unfolding eq by (intro mult_nonneg_nonneg rnd_nonneg) simp_all
  have "?t \<le> pow2 (int k) * pow2 (int k)"
    unfolding eq by (intro mult_mono le assms rnd_nonneg) simp_all
  then have t: "?t \<le> pow2 (2 * int k)" by (simp only: mult_2 pow2_add)
  have "pow2 (2 * int k) \<le> pow2 1023" using assms(3) by (intro pow2_le) simp
  then have "to_float ?t = Fin (rnd ?t)" using t t0 by (intro to_float_Fin) simp_all
  then show ?thesis using rnd_le_pow2 [OF t0 t] rnd_nonneg [OF t0] by (simp add: f)
qed

lemma next_m2_bound:
  assumes a: "n = 1 \<and> a = 0 \<and> is_i64 x \<or> 0 < n \<and> is_i64 a \<and> is_i64 x \<and> \<bar>x - a\<bar> \<le> 2 ^ k" and k: "k \<le> 62"
    and m: "0 \<le> m" "m \<le> of_int (n - 1) * pow2 (2 * int k)" and n: "n \<le> 2 ^ 53"
  shows "\<exists>m'. next_m2 n a (Fin m) x = Fin m' \<and> 0 \<le> m' \<and> m' \<le> of_int n * pow2 (2 * int k)"
proof -
  let ?e = "i64 (x - next_avg n a x)"
  have "(2 :: int) ^ k \<le> 2 ^ 62" using k by (rule power_increasing) simp
  then have k62: "(2 :: int) ^ k < 2 ^ 63" by (rule order_le_less_trans) simp
  have "\<exists>u. f64_mul (f64_of_int (i64 (x - a))) (f64_of_int ?e) = Fin u \<and> 0 \<le> u \<and> u \<le> pow2 (2 * int k)"
  proof (cases "n = 1 \<and> a = 0 \<and> is_i64 x")
    case True
    then have e: "?e = 0" "i64 (x - a) = x" "\<bar>x\<bar> \<le> 2 ^ 63"
      by (auto simp: next_avg_def i64_id is_i64_def)
    show ?thesis
      using f64_of_int_Fin [OF e(3)] by (simp add: e to_float_def clip_def f64_of_int_def)
  next
    case False
    then have h: "0 < n" "is_i64 a" "is_i64 x" "\<bar>x - a\<bar> \<le> 2 ^ k" using a by auto
    then have i: "is_i64 (x - a)" using k62 by (auto simp: is_i64_def abs_le_iff)
    note b = next_avg_exact(2,3) [OF h(1-3) i]
    have e: "0 \<le> x - a \<and> 0 \<le> x - next_avg n a x \<or> x - a \<le> 0 \<and> x - next_avg n a x \<le> 0"
      "\<bar>x - next_avg n a x\<bar> \<le> \<bar>x - a\<bar>"
      using b by (auto simp: min_def max_def split: if_splits)
    then have "is_i64 (x - next_avg n a x)" using h(4) k62 by (auto simp: is_i64_def abs_le_iff)
    then show ?thesis
      using f64_product_bound [of "x - a" k "x - next_avg n a x"] h(4) e k i
      by (simp add: i64_id)
  qed
  then obtain u where u: "f64_mul (f64_of_int (i64 (x - a))) (f64_of_int ?e) = Fin u"
    "0 \<le> u" "u \<le> pow2 (2 * int k)" by blast
  have s: "0 \<le> m + u" "m + u \<le> of_int n * pow2 (2 * int k)"
    using m u by (simp_all add: algebra_simps)
  have "(of_int n :: rat) \<le> of_int (2 ^ 53)" using n by (simp only: of_int_le_iff)
  then have "of_int n * pow2 (2 * int k) \<le> pow2 53 * pow2 (2 * int k)" by (intro mult_right_mono) simp_all
  also have "\<dots> \<le> pow2 1023" using k by (simp only: pow2_add [symmetric]) (intro pow2_le, simp)
  finally have "to_float (m + u) = Fin (rnd (m + u))" using s by (intro to_float_Fin) simp_all
  moreover have "rnd (m + u) \<le> of_int n * pow2 (2 * int k)" using s n by (intro rnd_le_exact) simp_all
  ultimately show ?thesis using rnd_nonneg [OF s(1)] by (simp add: next_m2_def u(1))
qed

lemma std_dev_bound:
  assumes "0 < n" "n \<le> 2 ^ 53" "0 \<le> m" "m \<le> of_int n * pow2 (2 * int k)" "k \<le> 62"
  shows "0 \<le> std_dev n (Fin m) \<and> std_dev n (Fin m) \<le> 2 ^ k"
proof -
  have "f64_of_int n = Fin (of_int n)"
    using assms(1,2) f64_of_int_Fin [of n] rnd_of_int [of n] by simp
  moreover have q: "0 \<le> m / of_int n" "m / of_int n \<le> pow2 (2 * int k)"
    using assms by (simp_all add: field_simps)
  moreover have "pow2 (2 * int k) \<le> pow2 1023" using assms(5) by (intro pow2_le) simp
  ultimately have d: "f64_div (Fin m) (f64_of_int n) = Fin (rnd (m / of_int n))"
    using assms(1) by (simp add: to_float_Fin)
  have "rnd (m / of_int n) \<le> pow2 (2 * int k)" using q by (intro rnd_le_pow2) simp_all
  then obtain r where r: "f64_sqrt (f64_div (Fin m) (f64_of_int n)) = Fin r" "0 \<le> r" "r \<le> pow2 (int k)"
    unfolding d using f64_sqrt_bound [of "rnd (m / of_int n)" "int k"] rnd_nonneg [OF q(1)] assms(5) by auto
  have "(2 :: int) ^ k \<le> 2 ^ 62" using assms(5) by (rule power_increasing) simp
  moreover have "(0 :: int) \<le> 2 ^ k" by simp
  ultimately have "is_i64 (2 ^ k)" by (simp add: is_i64_def del: zero_le_power)
  then show ?thesis using f64_to_i64_bound [of r "2 ^ k"] r by (simp add: std_dev_def)
qed

definition dev_inv :: "int \<Rightarrow> int \<Rightarrow> nat \<Rightarrow> packet_info list \<Rightarrow> 'u pinger \<Rightarrow> bool" where
  "dev_inv lo hi k xs p \<longleftrightarrow> mean_inv lo hi xs p \<and>
     (\<exists>m. stddevm2 p = Fin m \<and> 0 \<le> m \<and> m \<le> of_int (int (length xs)) * pow2 (2 * int k)) \<and>
     0 \<le> stdDevRtt p \<and> stdDevRtt p \<le> 2 ^ k"

lemma dev_inv_step:
  assumes inv: "dev_inv lo hi k xs p" and len: "length xs < 2 ^ 53"
    and rng: "is_i64 lo" "is_i64 hi" "hi - lo \<le> 2 ^ k" "k \<le> 62" and x: "lo \<le> Rtt x" "Rtt x \<le> hi"
  shows "\<exists>q. updateStatistics x p = Inr q \<and> dev_inv lo hi k (xs @ [x]) q"
proof -
  let ?n = "int (length xs) + 1"
  have mi: "mean_inv lo hi xs p" using inv by (simp add: dev_inv_def)
  have "(2 :: int) ^ k \<le> 2 ^ 62" using rng(4) by (rule power_increasing) simp
  then have "hi - lo < 2 ^ 63" using rng(3) by simp
  then obtain q where q: "updateStatistics x p = Inr q" "mean_inv lo hi (xs @ [x]) q"
    using mean_inv_step [OF mi _ rng(1,2) _ x] len by auto
  obtain m where m: "stddevm2 p = Fin m" "0 \<le> m" "m \<le> of_int (int (length xs)) * pow2 (2 * int k)"
    using inv by (auto simp: dev_inv_def)
  have n: "i64 (PacketsRecv p + 1) = ?n" using mi len i64_count [of "length xs"] by (simp add: mean_inv_def)
  have ai: "?n = 1 \<and> avgRtt p = 0 \<and> is_i64 (Rtt x) \<or>
      0 < ?n \<and> is_i64 (avgRtt p) \<and> is_i64 (Rtt x) \<and> \<bar>Rtt x - avgRtt p\<bar> \<le> 2 ^ k"
    using mi rng x by (auto simp: mean_inv_def is_i64_def split: if_splits)
  obtain m' where m': "next_m2 ?n (avgRtt p) (Fin m) (Rtt x) = Fin m'" "0 \<le> m'" "m' \<le> of_int ?n * pow2 (2 * int k)"
    using next_m2_bound [OF ai rng(4) m(2)] m(3) len by auto
  have "0 \<le> std_dev ?n (Fin m') \<and> std_dev ?n (Fin m') \<le> 2 ^ k"
    using m' len rng(4) by (intro std_dev_bound) simp_all
  moreover have "stddevm2 q = Fin m'" "stdDevRtt q = std_dev ?n (Fin m')"
    using q(1) n m(1) m'(1) by (auto simp: updateStatistics_fields)
  ultimately show ?thesis using q m' by (simp add: dev_inv_def add.commute)
qed


text \<open>
  The last two are invariants of the updates with round trips from \<open>lo\<close> to \<open>hi\<close>, when that
  range is small enough for the differences to be exact.
\<close>

definition in_range :: "int \<Rightarrow> int \<Rightarrow> int \<Rightarrow> packet_info \<Rightarrow> bool" where
  "in_range lo hi d x \<longleftrightarrow> is_i64 lo \<and> is_i64 hi \<and> hi - lo \<le> d \<and> lo \<le> Rtt x \<and> Rtt x \<le> hi"

interpretation mean: accumulator updateStatistics update_all "mean_inv lo hi" "in_range lo hi (2 ^ 63 - 1)" "2 ^ 63 - 1"
  for lo hi
  by unfold_locales (rule update_all.simps, rule update_all.simps, rule mean_inv_step, simp_all add: in_range_def)

interpretation deviation: accumulator updateStatistics update_all "dev_inv lo hi k"
    "\<lambda>x. in_range lo hi (2 ^ k) x \<and> k \<le> 62" "2 ^ 53"
  for lo hi k
  by unfold_locales (rule update_all.simps, rule update_all.simps, rule dev_inv_step, simp_all add: in_range_def)

lemma inv_New:
  "seen_inv rr rt [] ((New a r u)\<lparr>RecordRtts := rr, RecordTTLs := rt\<rparr>)"
  "mean_inv lo hi [] (New a r u)"
  "dev_inv lo hi k [] (New a r u)"
  by (simp_all add: seen_inv_def dev_inv_def mean_inv_def New_def)

section \<open>Packet loss\<close>

lemma packet_loss_bounds:
  assumes "0 \<le> recv" "recv \<le> sent" "is_i64 sent"
  shows "\<exists>r. packet_loss sent recv = Fin r \<and> 0 \<le> r \<and> r \<le> 100 \<and> (recv = sent \<longrightarrow> r = 0) \<and>
    (0 < sent \<longrightarrow> recv = 0 \<longrightarrow> r = 100)"
proof (cases "0 < sent")
  case True
  let ?a = "rnd (of_int (sent - recv))" and ?b = "rnd (of_int sent)"
  have s: "\<bar>sent\<bar> \<le> 2 ^ 63" "\<bar>sent - recv\<bar> \<le> 2 ^ 63" "is_i64 (sent - recv)"
    using assms True by (auto simp: is_i64_def)
  have b: "0 < ?b" using True pow2_le [of "- 1074" 0] by (intro rnd_pos) simp_all
  have a: "0 \<le> ?a" "?a \<le> ?b" using assms by (auto intro!: rnd_nonneg rnd_mono)
  let ?q = "?a / ?b"
  have q: "0 \<le> ?q" "?q \<le> pow2 0" using a b by simp_all
  have r: "0 \<le> rnd ?q" "rnd ?q \<le> 1" using rnd_nonneg [OF q(1)] rnd_le_pow2 [OF q] by simp_all
  have big: "1 \<le> pow2 1023" "100 \<le> pow2 1023"
    using pow2_le [of 0 1023] pow2_le [of 7 1023] by simp_all
  have h: "f64_of_int 100 = Fin 100" using f64_of_int_Fin [of 100] rnd_of_int [of 100] by simp
  have "rnd (rnd ?q * 100) \<le> 100"
    using rnd_le_exact [of "rnd ?q * 100" 100 0] r by simp
  moreover have "to_float ?q = Fin (rnd ?q)" "to_float (rnd ?q * 100) = Fin (rnd (rnd ?q * 100))"
    using q r big by (auto intro!: to_float_Fin)
  then have "packet_loss sent recv = Fin (rnd (rnd ?q * 100))"
    using True b s by (simp add: packet_loss_def i64_id f64_of_int_Fin h)
  moreover have "recv = 0 \<Longrightarrow> rnd (rnd ?q * 100) = 100"
    using b rnd_of_int [of 1] rnd_of_int [of 100] by simp
  ultimately show ?thesis using r rnd_nonneg [of "rnd ?q * 100"] by auto
qed (use assms in \<open>simp add: packet_loss_def\<close>)

section \<open>Evaluation\<close>

text \<open>The average and the deviation of a sequence alone, for evaluating concrete runs.\<close>

fun welford :: "int \<Rightarrow> int \<Rightarrow> float64 \<Rightarrow> int list \<Rightarrow> int \<times> int" where
  "welford n a m [] = (a, std_dev n m)"
| "welford n a m (x # xs) = welford (n + 1) (next_avg (n + 1) a x) (next_m2 (n + 1) a m x) xs"

lemma update_all_welford:
  assumes "0 \<le> PacketsRecv p" "PacketsRecv p + int (length xs) < 2 ^ 63" "xs \<noteq> []"
  shows "\<exists>q. update_all xs p = Inr q \<and>
    (avgRtt q, stdDevRtt q) = welford (PacketsRecv p) (avgRtt p) (stddevm2 p) (map Rtt xs)"
  using assms
proof (induction xs arbitrary: p)
  case (Cons x xs)
  have n: "i64 (PacketsRecv p + 1) = PacketsRecv p + 1"
    using Cons.prems by (intro i64_id) (simp add: is_i64_def)
  show ?case
  proof (cases "xs = []")
    case True
    then show ?thesis using n Cons.prems by (simp add: updateStatistics_fields)
  next
    case False
    let ?q = "p\<lparr>PacketsRecv := PacketsRecv p + 1,
      rtts := (if RecordRtts p then rtts p @ [Rtt x] else rtts p),
      ttls := (if RecordTTLs p then ttls p @ [word_of_int (PktTTL x)] else ttls p),
      minRtt := (if PacketsRecv p + 1 = 1 \<or> Rtt x < minRtt p then Rtt x else minRtt p),
      maxRtt := max (maxRtt p) (Rtt x),
      avgRtt := next_avg (PacketsRecv p + 1) (avgRtt p) (Rtt x),
      stddevm2 := next_m2 (PacketsRecv p + 1) (avgRtt p) (stddevm2 p) (Rtt x),
      stdDevRtt := std_dev (PacketsRecv p + 1) (next_m2 (PacketsRecv p + 1) (avgRtt p) (stddevm2 p) (Rtt x))\<rparr>"
    have "updateStatistics x p = Inr ?q"
      using n Cons.prems(1) updateStatistics_fields [of p x] by simp
    then show ?thesis using Cons.IH [of ?q] Cons.prems False by simp
  qed
qed simp

section \<open>Properties\<close>

text \<open>
  C23. After any sequence of received packets a fresh pinger has counted each of them, has recorded
  their round trips and TTLs in order when asked to (and nothing otherwise), and reports their
  least round trip and the greatest of them and 0. No update panics.
\<close>

theorem statistics_record:
  assumes "length xs < 2 ^ 63"
  shows "\<exists>q. update_all xs ((New a r u)\<lparr>RecordRtts := rr, RecordTTLs := rt\<rparr>) = Inr q \<and>
    PacketsRecv q = int (length xs) \<and>
    rtts q = (if rr then map Rtt xs else []) \<and>
    ttls q = (if rt then map (\<lambda>k. word_of_int (PktTTL k)) xs else []) \<and>
    (xs \<noteq> [] \<longrightarrow> minRtt q = Min (Rtt ` set xs)) \<and>
    maxRtt q = Max (insert 0 (Rtt ` set xs))"
proof -
  have "list_all (\<lambda>_. True) xs" "length ([] @ xs) \<le> 2 ^ 63 - 1"
    using assms by (simp_all add: list_all_iff)
  from seen.run [OF inv_New(1) [of rr rt a r u] this] show ?thesis
    unfolding seen_inv_def by force
qed

text \<open>
  C24. The average: for round trips within a range \<open>[lo, hi]\<close> narrower than \<open>2 ^ 63\<close>, the reported
  average lies in the range, and \<open>n\<close> times it differs from the exact sum by at most
  \<open>n (n - 1) / 2\<close> nanoseconds, the truncated divisions' total.
\<close>

theorem statistics_mean:
  assumes "list_all (in_range lo hi (2 ^ 63 - 1)) xs" "xs \<noteq> []" "length xs < 2 ^ 63"
  shows "\<exists>q. update_all xs (New a r u) = Inr q \<and> lo \<le> avgRtt q \<and> avgRtt q \<le> hi \<and>
    2 * \<bar>int (length xs) * avgRtt q - sum_list (map Rtt xs)\<bar> \<le> int (length xs) * (int (length xs) - 1)"
proof -
  have "length ([] @ xs) \<le> 2 ^ 63 - 1" using assms(3) by simp
  from mean.run [OF inv_New(2) [of lo hi a r u] assms(1) this] show ?thesis
    using assms(2) by (auto simp: mean_inv_def)
qed

text \<open>
  C25. The deviation: computed in floating point from round trips within a range of width
  \<open>2 ^ k\<close>, the reported deviation is a number from 0 to \<open>2 ^ k\<close>: never the result of a NaN or
  of an out-of-range conversion, whatever rounding does.
\<close>

theorem statistics_deviation:
  assumes "list_all (in_range lo hi (2 ^ k)) xs" "k \<le> 62" "length xs \<le> 2 ^ 53"
  shows "\<exists>q. update_all xs (New a r u) = Inr q \<and> 0 \<le> stdDevRtt q \<and> stdDevRtt q \<le> 2 ^ k"
proof -
  have "list_all (\<lambda>x. in_range lo hi (2 ^ k) x \<and> k \<le> 62) xs" "length ([] @ xs) \<le> 2 ^ 53"
    using assms by (simp_all add: list_all_iff)
  from deviation.run [OF inv_New(3) [of lo hi k a r u] this] show ?thesis
    by (auto simp: dev_inv_def)
qed

text \<open>
  C31. Packet loss: with at most as many packets received as sent, \<^verbatim>\<open>Statistics\<close> reports a
  finite percentage between 0 and 100, 0 if none was lost or none sent, and 100 if all were lost.
\<close>

theorem statistics_loss:
  assumes "0 \<le> PacketsRecv p" "PacketsRecv p \<le> PacketsSent p" "is_i64 (PacketsSent p)"
  shows "\<exists>r. st_PacketLoss (Statistics p) = Fin r \<and> 0 \<le> r \<and> r \<le> 100 \<and>
    (PacketsRecv p = PacketsSent p \<longrightarrow> r = 0) \<and>
    (0 < PacketsSent p \<longrightarrow> PacketsRecv p = 0 \<longrightarrow> r = 100)"
  using packet_loss_bounds [OF assms] by (simp add: Statistics_def Let_def)

definition rtt_packet :: "int \<Rightarrow> packet_info" where
  "rtt_packet r = \<lparr>Rtt = r, IPAddr = None, Addr = '''', Nbytes = 0, Seq = 0, PktTTL = 0, ID = 0\<rparr>"

lemma Rtt_rtt_packet [simp]: "Rtt (rtt_packet r) = r"
  by (simp add: rtt_packet_def)

text \<open>
  The ten round trips of the repository's \<^verbatim>\<open>TestStatisticsLossy\<close>, with twenty packets sent: the
  model gives what the test expects, to the nanosecond, including the two rounded values.
\<close>

theorem statistics_lossy_test:
  "\<exists>q. update_all (map rtt_packet [10, 1000, 1000, 10000, 1000, 800, 1000, 40, 100000, 1000])
        ((New ''localhost'' r u)\<lparr>PacketsSent := 20\<rparr>) = Inr q \<and>
    st_PacketsRecv (Statistics q) = 10 \<and> st_PacketsSent (Statistics q) = 20 \<and>
    st_PacketLoss (Statistics q) = Fin 50 \<and>
    st_MinRtt (Statistics q) = 10 \<and> st_MaxRtt (Statistics q) = 100000 \<and>
    st_AvgRtt (Statistics q) = 11585 \<and> st_StdDevRtt (Statistics q) = 29603"
proof -
  let ?xs = "[10, 1000, 1000, 10000, 1000, 800, 1000, 40, 100000, 1000]"
  let ?p = "(New ''localhost'' r u)\<lparr>PacketsSent := 20\<rparr>"
  have p: "seen_inv True True [] ?p" "PacketsRecv ?p = 0" "avgRtt ?p = 0" "stddevm2 ?p = Fin 0"
    by (simp_all add: seen_inv_def New_def)
  have "list_all (\<lambda>_. True) (map rtt_packet ?xs)" "length ([] @ map rtt_packet ?xs) \<le> 2 ^ 63 - 1" by simp_all
  from seen.run [OF p(1) this] obtain q where
    q: "update_all (map rtt_packet ?xs) ?p = Inr q" "seen_inv True True (map rtt_packet ?xs) q" by auto
  have w: "welford 0 0 (Fin 0) ?xs = (11585, 29603)"
    by (simp add: next_avg_def next_m2_def std_dev_def i64_def is_i64_def float_eval Let_def)
  have "(avgRtt q, stdDevRtt q) = (11585, 29603)"
    using update_all_welford [of ?p "map rtt_packet ?xs"] q(1) p(2-4) w by (simp add: comp_def)
  moreover have "PacketsSent q = 20"
    using q(1) by (auto simp: go_bind_Inr_iff New_def dest!: updateStatistics_sent)
  moreover have "packet_loss 20 10 = Fin 50"
    by (simp add: packet_loss_def i64_def float_eval Let_def)
  ultimately show ?thesis
    using q by (intro exI [of _ q]) (simp add: Statistics_def Let_def seen_inv_def)
qed

section \<open>Witnesses\<close>

theorem statistics_record_witness:
  "length [rtt_packet 7, rtt_packet (- 5)] < 2 ^ 63 \<and>
   (\<exists>q. update_all [rtt_packet 7, rtt_packet (- 5)] ((New ''h'' 1 (0 :: nat))\<lparr>RecordRtts := True, RecordTTLs := False\<rparr>) = Inr q \<and>
     PacketsRecv q = 2 \<and> rtts q = [7, - 5] \<and> ttls q = [] \<and> minRtt q = - 5 \<and> maxRtt q = 7)"
  using statistics_record [where xs = "[rtt_packet 7, rtt_packet (- 5)]" and a = "''h''" and r = 1 and u = "0 :: nat" and rr = True and rt = False] by simp

theorem statistics_mean_witness:
  "list_all (in_range 3 9 (2 ^ 63 - 1)) [rtt_packet 3, rtt_packet 9] \<and>
   (\<exists>q. update_all [rtt_packet 3, rtt_packet 9] (New ''h'' 1 (0 :: nat)) = Inr q \<and> 3 \<le> avgRtt q \<and> avgRtt q \<le> 9 \<and>
     2 * \<bar>2 * avgRtt q - 12\<bar> \<le> 2)"
  using statistics_mean [where lo = 3 and hi = 9 and xs = "[rtt_packet 3, rtt_packet 9]" and a = "''h''" and r = 1 and u = "0 :: nat"]
  by (simp add: in_range_def is_i64_def)

theorem statistics_deviation_witness:
  "list_all (in_range 0 16 (2 ^ 4)) [rtt_packet 3, rtt_packet 16] \<and>
   (\<exists>q. update_all [rtt_packet 3, rtt_packet 16] (New ''h'' 1 (0 :: nat)) = Inr q \<and> 0 \<le> stdDevRtt q \<and> stdDevRtt q \<le> 16)"
  using statistics_deviation [where lo = 0 and hi = 16 and k = 4 and xs = "[rtt_packet 3, rtt_packet 16]" and a = "''h''" and r = 1 and u = "0 :: nat"]
  by (simp add: in_range_def is_i64_def)

theorem statistics_loss_witness:
  "\<exists>r. st_PacketLoss (Statistics ((New ''h'' 1 (0 :: nat))\<lparr>PacketsSent := 3\<rparr>)) = Fin r \<and> r = 100"
  using statistics_loss [of "(New ''h'' 1 (0 :: nat))\<lparr>PacketsSent := 3\<rparr>"]
  by (auto simp: New_def is_i64_def)

end
