(* ===== verification/Pinger_Recv.thy ===== *)
theory Pinger_Recv
  imports Platform Pinger_Resolve Pinger_Stats
begin

text \<open>
  The receiving half of \<^verbatim>\<open>ping.go\<close> after a datagram has been read: \<^verbatim>\<open>getPacketUUID\<close>,
  \<^verbatim>\<open>getCurrentTrackerUUID\<close> and \<^verbatim>\<open>processPacket\<close>. The packages \<^verbatim>\<open>uuid\<close> and
  \<^verbatim>\<open>icmp\<close>, the operating system and the text of an address are the parameters in the record
  \<open>env\<close>; the clock is an argument. The callbacks are events: the callback functions are the
  client's and are taken not to write the pinger.
\<close>

section \<open>Third-party packages\<close>

text \<open>A message body is an \<^verbatim>\<open>*icmp.Echo\<close> with its identifier, sequence number and data, or of another type.\<close>

datatype icmp_body = Echo int int "byte list" | OtherBody nat

record icmp_message =
  msg_Type :: icmp_type
  msg_Code :: int
  msg_Body :: icmp_body

record 'u env =
  GOOS :: goos
  uuid_Marshal :: "'u \<Rightarrow> go_error + byte list"
  uuid_Unmarshal :: "byte list \<Rightarrow> go_error + 'u"
  icmp_Marshal :: "icmp_message \<Rightarrow> go_error + byte list"
  icmp_Parse :: "int \<Rightarrow> byte list \<Rightarrow> go_error + icmp_message"
  ip_string :: "ip_addr option \<Rightarrow> string"

section \<open>Trackers\<close>

definition getPacketUUID :: "'u env \<Rightarrow> 'u pinger \<Rightarrow> byte list \<Rightarrow> (go_error option \<times> 'u option) go" where
  "getPacketUUID env p pkt =
     go_bind (slice timeSliceLength (timeSliceLength + trackerLength) pkt) (\<lambda>b.
       case uuid_Unmarshal env b of
         Inl err \<Rightarrow> Inr (Some (E_decoding_uuid err), None)
       | Inr packetUUID \<Rightarrow>
           if packetUUID \<in> set (trackerUUIDs p) then Inr (None, Some packetUUID)
           else Inr (None, None))"

definition getCurrentTrackerUUID :: "'u pinger \<Rightarrow> 'u go" where
  "getCurrentTrackerUUID p = index (trackerUUIDs p) (length (trackerUUIDs p) - 1)"

text \<open>\<^verbatim>\<open>_, inflight := p.awaitingSequences[u][seq]\<close>; reading an absent or nil map finds nothing.\<close>

definition inflight :: "'u pinger \<Rightarrow> 'u \<Rightarrow> int \<Rightarrow> bool" where
  "inflight p u n = (case awaitingSequences p u of None \<Rightarrow> False | Some S \<Rightarrow> n \<in> S)"

text \<open>\<^verbatim>\<open>delete(p.awaitingSequences[u], seq)\<close>, a no-op on an absent or nil map.\<close>

definition delete_awaiting :: "'u \<Rightarrow> int \<Rightarrow> 'u pinger \<Rightarrow> 'u pinger" where
  "delete_awaiting u n p = (case awaitingSequences p u of
       None \<Rightarrow> p
     | Some S \<Rightarrow> p\<lparr>awaitingSequences := (awaitingSequences p)(u \<mapsto> S - {n})\<rparr>)"

section \<open>processPacket\<close>

definition shouldnt_happen :: string where
  "shouldnt_happen = ''received address: %s it neither an Ip address (ICMP) nor UDP address, shouldn't happen. using initial address''"

text \<open>The address a reply came from, with the lines logged when its type is unknown; a nil logger panics.\<close>

definition real_ip :: "'u pinger \<Rightarrow> net_addr \<Rightarrow> (ip_addr option \<times> event list) go" where
  "real_ip p a = (case a of
       AddrIP v \<Rightarrow> Inr (v, [])
     | AddrUDP v zone \<Rightarrow> Inr (Some (ip_of v), [])
     | AddrOther k \<Rightarrow> (case p_logger p of
           None \<Rightarrow> Inl NilDereference
         | Some lg \<Rightarrow> Inr (ipaddr p, map LogLine (Infof lg shouldnt_happen [ArgAddr a]))))"

definition processPacket ::
  "'u env \<Rightarrow> time \<Rightarrow> raw_packet \<Rightarrow> 'u pinger \<Rightarrow> (go_error option \<times> 'u pinger \<times> event list) go" where
  "processPacket env now recv p =
     (let receivedAt = now;
          (proto, recv) =
            (if ipv4 p then
               let (n, b) = stripIPv4Header (nbytes recv) (bytes recv)
               in (protocolICMP, recv\<lparr>nbytes := n, bytes := b\<rparr>)
             else (protocolIPv6ICMP, recv))
      in case icmp_Parse env proto (bytes recv) of
           Inl err \<Rightarrow> Inr (Some (E_parsing_icmp err), p, [])
         | Inr m \<Rightarrow>
             if msg_Type m \<noteq> ipv4_ICMPTypeEchoReply \<and> msg_Type m \<noteq> ipv6_ICMPTypeEchoReply
             then Inr (None, p, [])
             else go_bind (real_ip p (src_addr recv)) (\<lambda>(realIP, evs).
               let inPkt = \<lparr>Rtt = 0, IPAddr = realIP, Addr = ip_string env realIP, Nbytes = nbytes recv,
                            Seq = 0, PktTTL = ttl recv, ID = ident p\<rparr>
               in case msg_Body m of
                    Echo i n data \<Rightarrow>
                      if \<not> matchID (GOOS env) p i then Inr (None, p, evs)
                      else if length data < timeSliceLength + trackerLength
                      then Inr (Some (E_insufficient_data (length data) data), p, evs)
                      else go_bind (getPacketUUID env p data) (\<lambda>(err, pktUUID).
                        case (err, pktUUID) of
                          (Some e, _) \<Rightarrow> Inr (err, p, evs)
                        | (None, None) \<Rightarrow> Inr (err, p, evs)
                        | (None, Some u) \<Rightarrow>
                            go_bind (go_bind (slice 0 timeSliceLength data) bytesToTime) (\<lambda>timestamp.
                              let inPkt = inPkt\<lparr>Rtt := time_Sub receivedAt timestamp\<rparr>;
                                  inPkt = inPkt\<lparr>Seq := n\<rparr>
                              in if \<not> inflight p u n then
                                   let p = p\<lparr>PacketsRecvDuplicates := i64 (PacketsRecvDuplicates p + 1)\<rparr>
                                   in Inr (None, p, evs @ (if OnDuplicateRecv p then [CallOnDuplicateRecv inPkt] else []))
                                 else
                                   let p = delete_awaiting u n p
                                   in go_bind (updateStatistics inPkt p) (\<lambda>p.
                                        Inr (None, p, evs @ (if OnRecv p then [CallOnRecv inPkt] else [])))))
                  | OtherBody k \<Rightarrow> Inr (Some E_invalid_echo_reply, p, evs)))"

section \<open>What a received datagram is\<close>

text \<open>The message behind a possible IPv4 header, and the byte count without the header.\<close>

definition parsed :: "'u env \<Rightarrow> 'u pinger \<Rightarrow> raw_packet \<Rightarrow> go_error + icmp_message" where
  "parsed env p recv =
     (if ipv4 p then icmp_Parse env protocolICMP (snd (stripIPv4Header (nbytes recv) (bytes recv)))
      else icmp_Parse env protocolIPv6ICMP (bytes recv))"

definition net_nbytes :: "'u pinger \<Rightarrow> raw_packet \<Rightarrow> int" where
  "net_nbytes p recv = (if ipv4 p then fst (stripIPv4Header (nbytes recv) (bytes recv)) else nbytes recv)"

definition is_reply_type :: "icmp_type \<Rightarrow> bool" where
  "is_reply_type t \<longleftrightarrow> t = ipv4_ICMPTypeEchoReply \<or> t = ipv6_ICMPTypeEchoReply"

text \<open>
  The datagram is an echo reply for this pinger: to its identifier where that can be told, with
  room for a stamp and a tracker, and with one of the pinger's trackers, \<open>u\<close>; \<open>n\<close> is its
  sequence number and \<open>d\<close> its data.
\<close>

definition reply_to :: "'u env \<Rightarrow> 'u pinger \<Rightarrow> raw_packet \<Rightarrow> 'u \<Rightarrow> int \<Rightarrow> byte list \<Rightarrow> bool" where
  "reply_to env p recv u n d \<longleftrightarrow>
     (\<exists>m i. parsed env p recv = Inr m \<and> is_reply_type (msg_Type m) \<and> msg_Body m = Echo i n d \<and>
        matchID (GOOS env) p i \<and> timeSliceLength + trackerLength \<le> length d \<and>
        uuid_Unmarshal env (take trackerLength (drop timeSliceLength d)) = Inr u \<and> u \<in> set (trackerUUIDs p))"

text \<open>The callbacks among the events.\<close>

fun is_callback :: "event \<Rightarrow> bool" where
  "is_callback (LogLine l) = False"
| "is_callback _ = True"

definition callbacks :: "event list \<Rightarrow> event list" where
  "callbacks = filter is_callback"

lemma callbacks_simps [simp]:
  "callbacks [] = []" "callbacks (xs @ ys) = callbacks xs @ callbacks ys"
  "callbacks (map LogLine ls) = []"
  by (simp_all add: callbacks_def filter_empty_conv)

lemma real_ip_callbacks: "real_ip p a = Inr (v, evs) \<Longrightarrow> callbacks evs = []"
  by (auto simp: real_ip_def split: net_addr.splits option.splits)

text \<open>The address is of a known type, or there is a logger to say that it is not.\<close>

definition address_known :: "'u pinger \<Rightarrow> net_addr \<Rightarrow> bool" where
  "address_known p a \<longleftrightarrow> (case a of AddrOther k \<Rightarrow> p_logger p \<noteq> None | _ \<Rightarrow> True)"

lemma address_known_logger: "p_logger p \<noteq> None \<Longrightarrow> address_known p a"
  by (simp add: address_known_def split: net_addr.split)

lemma real_ip_total: "address_known p a \<Longrightarrow> \<exists>v evs. real_ip p a = Inr (v, evs)"
  by (auto simp: real_ip_def address_known_def split: net_addr.splits)

text \<open>What the callback and the statistics are given.\<close>

definition in_packet :: "'u env \<Rightarrow> 'u pinger \<Rightarrow> raw_packet \<Rightarrow> ip_addr option \<Rightarrow> duration \<Rightarrow> int \<Rightarrow> packet_info" where
  "in_packet env p recv v rtt n = \<lparr>Rtt = rtt, IPAddr = v, Addr = ip_string env v, Nbytes = net_nbytes p recv,
     Seq = n, PktTTL = ttl recv, ID = ident p\<rparr>"

lemma getPacketUUID_known:
  assumes "24 \<le> length d" "uuid_Unmarshal env (take 16 (drop 8 d)) = Inr u" "u \<in> set (trackerUUIDs p)"
  shows "getPacketUUID env p d = Inr (None, Some u)"
  using assms by (simp add: getPacketUUID_def slice_Inr)

lemma getPacketUUID_cases:
  assumes "24 \<le> length d"
  shows "(\<exists>e. getPacketUUID env p d = Inr (Some e, None)) \<or> getPacketUUID env p d = Inr (None, None) \<or>
    (\<exists>u. getPacketUUID env p d = Inr (None, Some u) \<and> uuid_Unmarshal env (take 16 (drop 8 d)) = Inr u \<and>
      u \<in> set (trackerUUIDs p))"
  using assms by (auto simp: getPacketUUID_def slice_Inr split: sum.split)

section \<open>The two halves of processPacket\<close>

text \<open>The call as the parse of the datagram and what follows it.\<close>

lemma processPacket_parsed:
  "processPacket env now recv p =
    (case parsed env p recv of
       Inl err \<Rightarrow> Inr (Some (E_parsing_icmp err), p, [])
     | Inr m \<Rightarrow>
        if \<not> is_reply_type (msg_Type m) then Inr (None, p, [])
        else go_bind (real_ip p (src_addr recv)) (\<lambda>(v, evs).
          case msg_Body m of
            OtherBody k \<Rightarrow> Inr (Some E_invalid_echo_reply, p, evs)
          | Echo i n d \<Rightarrow>
             if \<not> matchID (GOOS env) p i then Inr (None, p, evs)
             else if length d < 24 then Inr (Some (E_insufficient_data (length d) d), p, evs)
             else go_bind (getPacketUUID env p d) (\<lambda>(err, pktUUID).
               case (err, pktUUID) of
                 (Some e, _) \<Rightarrow> Inr (err, p, evs)
               | (None, None) \<Rightarrow> Inr (err, p, evs)
               | (None, Some u) \<Rightarrow>
                   go_bind (go_bind (slice 0 8 d) bytesToTime) (\<lambda>t.
                     let k = in_packet env p recv v (time_Sub now t) n
                     in if \<not> inflight p u n then
                          Inr (None, p\<lparr>PacketsRecvDuplicates := i64 (PacketsRecvDuplicates p + 1)\<rparr>,
                            evs @ (if OnDuplicateRecv p then [CallOnDuplicateRecv k] else []))
                        else go_bind (updateStatistics k (delete_awaiting u n p)) (\<lambda>q.
                          Inr (None, q, evs @ (if OnRecv q then [CallOnRecv k] else [])))))))"
  by (cases "stripIPv4Header (nbytes recv) (bytes recv)")
    (simp add: processPacket_def parsed_def net_nbytes_def in_packet_def is_reply_type_def Let_def
      case_prod_beta cong del: icmp_body.case_cong_weak sum.case_cong_weak option.case_cong_weak if_weak_cong)

lemma real_ip_cases:
  obtains v evs where "real_ip p a = Inr (v, evs)" "callbacks evs = []"
  | "real_ip p a = Inl NilDereference" "\<not> address_known p a"
  by (cases a; cases "p_logger p") (auto simp: real_ip_def address_known_def)

text \<open>A datagram that is no reply to this pinger changes nothing and calls nobody.\<close>

lemma processPacket_foreign:
  assumes "\<And>u n d. \<not> reply_to env p recv u n d"
  shows "(\<exists>err evs. processPacket env now recv p = Inr (err, p, evs) \<and> callbacks evs = []) \<or>
    (\<not> address_known p (src_addr recv) \<and> processPacket env now recv p = Inl NilDereference)"
proof (cases "parsed env p recv")
  case (Inr m)
  show ?thesis
  proof (rule real_ip_cases [of p "src_addr recv"])
    fix v evs assume 1: "real_ip p (src_addr recv) = Inr (v, evs)" "callbacks evs = []"
    have "\<exists>err evs. processPacket env now recv p = Inr (err, p, evs) \<and> callbacks evs = []"
      if "is_reply_type (msg_Type m)" "msg_Body m = Echo i n d" "matchID (GOOS env) p i" "24 \<le> length d" for i n d
    proof -
      from getPacketUUID_cases [OF that(4), of env p] show ?thesis
      proof (elim disjE exE conjE)
        fix u assume "uuid_Unmarshal env (take 16 (drop 8 d)) = Inr u" "u \<in> set (trackerUUIDs p)"
        with that Inr have "reply_to env p recv u n d" by (auto simp: reply_to_def)
        with assms show ?thesis by blast
      qed (use that 1 Inr in \<open>simp_all add: processPacket_parsed\<close>)
    qed
    with 1 Inr show ?thesis
      by (cases "msg_Body m") (auto simp: processPacket_parsed not_less)
  next
    assume "real_ip p (src_addr recv) = Inl NilDereference" "\<not> address_known p (src_addr recv)"
    then show ?thesis using Inr by (simp add: processPacket_parsed)
  qed
qed (simp add: processPacket_parsed)

text \<open>A reply is a duplicate or an answer to a request in flight.\<close>

lemma processPacket_reply:
  assumes "reply_to env p recv u n d" "real_ip p (src_addr recv) = Inr (v, evs)"
  obtains t where "go_bind (slice 0 8 d) bytesToTime = Inr t"
    and "processPacket env now recv p =
      (let k = in_packet env p recv v (time_Sub now t) n
       in if \<not> inflight p u n then
            Inr (None, p\<lparr>PacketsRecvDuplicates := i64 (PacketsRecvDuplicates p + 1)\<rparr>,
              evs @ (if OnDuplicateRecv p then [CallOnDuplicateRecv k] else []))
          else go_bind (updateStatistics k (delete_awaiting u n p)) (\<lambda>q.
            Inr (None, q, evs @ (if OnRecv q then [CallOnRecv k] else []))))"
proof -
  from assms(1) obtain m i where m: "parsed env p recv = Inr m" "is_reply_type (msg_Type m)"
    "msg_Body m = Echo i n d" "matchID (GOOS env) p i" "24 \<le> length d"
    "uuid_Unmarshal env (take 16 (drop 8 d)) = Inr u" "u \<in> set (trackerUUIDs p)"
    by (auto simp: reply_to_def)
  obtain t where t: "go_bind (slice 0 8 d) bytesToTime = Inr t"
    using stamp.dec_head_total [of d] m(5) by auto
  show ?thesis
    using m assms(2) getPacketUUID_known [OF m(5,6,7)]
    by (intro that [OF t]) (simp add: processPacket_parsed t)
qed

lemma processPacket_reply_Inr:
  assumes r: "reply_to env p recv u n d" and q: "processPacket env now recv p = Inr (err, q, evs)"
  shows "\<exists>t v. go_bind (slice 0 8 d) bytesToTime = Inr t \<and> err = None \<and>
    (let k = in_packet env p recv v (time_Sub now t) n
     in if inflight p u n
        then updateStatistics k (delete_awaiting u n p) = Inr q \<and> callbacks evs = (if OnRecv q then [CallOnRecv k] else [])
        else q = p\<lparr>PacketsRecvDuplicates := i64 (PacketsRecvDuplicates p + 1)\<rparr> \<and>
          callbacks evs = (if OnDuplicateRecv p then [CallOnDuplicateRecv k] else []))"
proof -
  have "\<exists>v evs'. real_ip p (src_addr recv) = Inr (v, evs')"
    using r q by (auto simp: reply_to_def processPacket_parsed go_bind_Inr_iff)
  then obtain v evs' where v: "real_ip p (src_addr recv) = Inr (v, evs')" by blast
  note c = real_ip_callbacks [OF v]
  show ?thesis
  proof (rule processPacket_reply [OF r v, of now], goal_cases)
    case (1 t)
    let ?k = "in_packet env p recv v (time_Sub now t) n"
    have "(if \<not> inflight p u n then
            Inr (None, p\<lparr>PacketsRecvDuplicates := i64 (PacketsRecvDuplicates p + 1)\<rparr>,
              evs' @ (if OnDuplicateRecv p then [CallOnDuplicateRecv ?k] else []))
          else go_bind (updateStatistics ?k (delete_awaiting u n p)) (\<lambda>q.
            Inr (None, q, evs' @ (if OnRecv q then [CallOnRecv ?k] else [])))) = Inr (err, q, evs)"
      using 1(2) q by (simp add: Let_def)
    then show ?thesis using c 1(1)
      by (intro exI [of _ t] exI [of _ v])
        (auto simp: Let_def go_bind_Inr_iff callbacks_def split: if_splits)
  qed
qed

lemma delete_awaiting_simps [simp]:
  "PacketsRecv (delete_awaiting u n p) = PacketsRecv p" "PacketsSent (delete_awaiting u n p) = PacketsSent p"
  "trackerUUIDs (delete_awaiting u n p) = trackerUUIDs p" "sequence (delete_awaiting u n p) = sequence p"
  "OnRecv (delete_awaiting u n p) = OnRecv p"
  by (simp_all add: delete_awaiting_def split: option.split)

end
