(* ===== verification/Wire_Laws.thy ===== *)
theory Wire_Laws
  imports Pinger_Recv
begin

text \<open>
  The documented behaviour of the third-party codecs that the properties of the pinger assume:
  what \<^verbatim>\<open>github.com/google/uuid\<close> and \<^verbatim>\<open>golang.org/x/net/icmp\<close> say their functions do. Also one
  instance of \<open>env\<close> that has it, on which the witnesses run.
\<close>

section \<open>Laws\<close>

text \<open>A UUID has sixteen bytes and is read back from them.\<close>

definition uuid_laws :: "'u env \<Rightarrow> bool" where
  "uuid_laws env \<longleftrightarrow>
     (\<forall>u. \<exists>b. uuid_Marshal env u = Inr b \<and> length b = 16 \<and> uuid_Unmarshal env b = Inr u)"

fun type_code :: "icmp_type \<Rightarrow> int" where
  "type_code (ICMPv4 n) = n"
| "type_code (ICMPv6 n) = n"

fun type_proto :: "icmp_type \<Rightarrow> int" where
  "type_proto (ICMPv4 n) = protocolICMP"
| "type_proto (ICMPv6 n) = protocolIPv6ICMP"

definition echo_types :: "icmp_type set" where
  "echo_types = {ipv4_ICMPTypeEcho, ipv4_ICMPTypeEchoReply, ipv6_ICMPTypeEchoRequest, ipv6_ICMPTypeEchoReply}"

text \<open>
  An echo message has a header of eight bytes, the first of them the type, in front of its data.
  Parsing the protocol's messages restores it; bytes behind the message belong to its data, since
  the format has no length field.
\<close>

definition icmp_laws :: "'u env \<Rightarrow> bool" where
  "icmp_laws env \<longleftrightarrow>
     (\<forall>t i n d. t \<in> echo_types \<and> 0 \<le> i \<and> i \<le> 65535 \<and> 0 \<le> n \<and> n \<le> 65535 \<longrightarrow>
        (\<exists>h. length h = 8 \<and> hd h = word_of_int (type_code t) \<and>
           icmp_Marshal env \<lparr>msg_Type = t, msg_Code = 0, msg_Body = Echo i n d\<rparr> = Inr (h @ d) \<and>
           (\<forall>pad. icmp_Parse env (type_proto t) (h @ d @ pad) =
              Inr \<lparr>msg_Type = t, msg_Code = 0, msg_Body = Echo i n (d @ pad)\<rparr>)))"

lemma uuid_lawsE:
  assumes "uuid_laws env"
  obtains b where "uuid_Marshal env u = Inr b" "length b = 16" "uuid_Unmarshal env b = Inr u"
  using assms by (auto simp: uuid_laws_def)

lemma icmp_lawsE:
  assumes "icmp_laws env" "t \<in> echo_types" "0 \<le> i" "i \<le> 65535" "0 \<le> n" "n \<le> 65535"
  obtains h where "length h = 8" "hd h = word_of_int (type_code t)"
    "icmp_Marshal env \<lparr>msg_Type = t, msg_Code = 0, msg_Body = Echo i n d\<rparr> = Inr (h @ d)"
    "\<And>pad. icmp_Parse env (type_proto t) (h @ d @ pad) = Inr \<lparr>msg_Type = t, msg_Code = 0, msg_Body = Echo i n (d @ pad)\<rparr>"
  using assms unfolding icmp_laws_def by blast

section \<open>An instance\<close>

text \<open>
  UUIDs are bytes, written sixteen times; the checksum, which parsing does not check, is left zero.
\<close>

definition sample_Marshal :: "icmp_message \<Rightarrow> go_error + byte list" where
  "sample_Marshal m = (case msg_Body m of
       Echo i n d \<Rightarrow> Inr ([word_of_int (type_code (msg_Type m)), word_of_int (msg_Code m), 0, 0,
         word_of_int (i div 256), word_of_int i, word_of_int (n div 256), word_of_int n] @ d)
     | OtherBody k \<Rightarrow> Inl (ExternalError k))"

definition sample_Parse :: "int \<Rightarrow> byte list \<Rightarrow> go_error + icmp_message" where
  "sample_Parse proto b =
     (if length b < 8 then Inl (ExternalError 0)
      else let t = uint (b ! 0)
           in Inr \<lparr>msg_Type = (if proto = protocolICMP then ICMPv4 t else ICMPv6 t), msg_Code = uint (b ! 1),
                msg_Body = Echo (256 * uint (b ! 4) + uint (b ! 5)) (256 * uint (b ! 6) + uint (b ! 7)) (drop 8 b)\<rparr>)"

definition sample_env :: "goos \<Rightarrow> byte env" where
  "sample_env os = \<lparr>
     GOOS = os,
     uuid_Marshal = (\<lambda>u. Inr (replicate 16 u)),
     uuid_Unmarshal = (\<lambda>b. if length b = 16 then Inr (hd b) else Inl (ExternalError 1)),
     icmp_Marshal = sample_Marshal,
     icmp_Parse = sample_Parse,
     ip_string = (\<lambda>_. ''address'')\<rparr>"

lemma uuid_laws_sample: "uuid_laws (sample_env os)"
  by (simp add: uuid_laws_def sample_env_def)

lemma icmp_laws_sample: "icmp_laws (sample_env os)"
proof -
  have "\<exists>h. length h = 8 \<and> hd h = word_of_int (type_code t) \<and>
      sample_Marshal \<lparr>msg_Type = t, msg_Code = 0, msg_Body = Echo i n d\<rparr> = Inr (h @ d) \<and>
      (\<forall>pad. sample_Parse (type_proto t) (h @ d @ pad) = Inr \<lparr>msg_Type = t, msg_Code = 0, msg_Body = Echo i n (d @ pad)\<rparr>)"
    if "t \<in> echo_types" "0 \<le> i" "i \<le> 65535" "0 \<le> n" "n \<le> 65535" for t i n d
    using that two_bytes_split [of i] two_bytes_split [of n]
    by (intro exI [of _ "[word_of_int (type_code t), 0, 0, 0, word_of_int (i div 256), word_of_int i,
          word_of_int (n div 256), word_of_int n]"])
      (auto simp: sample_Marshal_def sample_Parse_def echo_types_def ipv4_ICMPTypeEcho_def ipv4_ICMPTypeEchoReply_def
        ipv6_ICMPTypeEchoRequest_def ipv6_ICMPTypeEchoReply_def protocolICMP_def protocolIPv6ICMP_def Let_def
        simp del: word_of_int_eq_iff)
  then show ?thesis by (simp add: icmp_laws_def sample_env_def)
qed

end
