(* ===== verification/Pinger_Send.thy ===== *)
theory Pinger_Send
  imports Wire_Laws
begin

text \<open>
  \<^verbatim>\<open>sendICMP\<close> of \<^verbatim>\<open>ping.go\<close>: building the echo request, writing it until a write succeeds
  or fails for good, and the book-keeping of the sequence number in flight. The write loop has
  no bound in the code, so it is a partial function: \<open>None\<close> is a loop that never ends. The clock
  and the next UUID are arguments.
\<close>

section \<open>The request\<close>

definition send_dst :: "'u pinger \<Rightarrow> net_addr go" where
  "send_dst p =
     (if protocol p = ''udp''
      then (case ipaddr p of None \<Rightarrow> Inl NilDereference | Some a \<Rightarrow> Inr (AddrUDP (IP a) (Zone a)))
      else Inr (AddrIP (ipaddr p)))"

text \<open>The data of the request: stamp, tracker, and ones up to the size asked for.\<close>

definition send_payload :: "'u pinger \<Rightarrow> time \<Rightarrow> byte list \<Rightarrow> byte list" where
  "send_payload p now uuidEncoded =
     (let t = timeToBytes now @ uuidEncoded;
          remainSize = i64 (i64 (Size p - int timeSliceLength) - int trackerLength)
      in if remainSize > 0 then t @ concat (replicate (nat remainSize) [1]) else t)"

definition out_packet :: "'u pinger \<Rightarrow> byte list \<Rightarrow> packet_info" where
  "out_packet p msgBytes = \<lparr>Rtt = 0, IPAddr = ipaddr p, Addr = addr p, Nbytes = int (length msgBytes),
     Seq = sequence p, PktTTL = 0, ID = ident p\<rparr>"

section \<open>A successful write\<close>

text \<open>Writing to a nil map panics; a sequence number past 65535 starts over with a new tracker.\<close>

definition record_sent :: "'u \<Rightarrow> 'u \<Rightarrow> 'u pinger \<Rightarrow> 'u pinger go" where
  "record_sent newUUID currentUUID p = (case awaitingSequences p currentUUID of
       None \<Rightarrow> Inl NilMapWrite
     | Some S \<Rightarrow>
        (let p = p\<lparr>awaitingSequences := (awaitingSequences p)(currentUUID \<mapsto> insert (sequence p) S)\<rparr>;
             p = p\<lparr>PacketsSent := i64 (PacketsSent p + 1)\<rparr>;
             p = p\<lparr>sequence := i64 (sequence p + 1)\<rparr>
         in if sequence p > 65535 then
              let p = p\<lparr>trackerUUIDs := trackerUUIDs p @ [newUUID]\<rparr>;
                  p = p\<lparr>awaitingSequences := (awaitingSequences p)(newUUID \<mapsto> {})\<rparr>;
                  p = p\<lparr>sequence := 0\<rparr>
              in Inr p
            else Inr p))"

section \<open>The write loop\<close>

text \<open>\<^verbatim>\<open>err.(*net.OpError)\<close> whose \<^verbatim>\<open>Err\<close> is the constant itself.\<close>

definition op_ENOBUFS :: "go_error \<Rightarrow> bool" where
  "op_ENOBUFS e = (case e of OpError tmo inner \<Rightarrow> inner = Errno ENOBUFS | _ \<Rightarrow> False)"

definition needs_broadcast :: "'u env \<Rightarrow> go_error \<Rightarrow> bool" where
  "needs_broadcast env e \<longleftrightarrow> errors_Is e EACCES \<and> GOOS env = Linux"

type_synonym ('c, 'u) sent = "(go_error option \<times> 'c \<times> 'u pinger \<times> event list) go"

text \<open>One round of the loop: try again with the connection as it is left, return, or panic.\<close>

datatype ('c, 'u) attempt =
    Retry 'c "event list"
  | Returns "go_error option" 'c "'u pinger" "event list"
  | Panics panic

definition send_attempt ::
  "'u env \<Rightarrow> 'c packet_conn \<Rightarrow> byte list \<Rightarrow> net_addr \<Rightarrow> 'u \<Rightarrow> 'u \<Rightarrow> 'u pinger \<Rightarrow> 'c \<Rightarrow> ('c, 'u) attempt" where
  "send_attempt env pc msgBytes dst newUUID currentUUID p c =
     (case WriteTo pc c msgBytes dst of (c, n, err) \<Rightarrow>
       (case err of
          Some e \<Rightarrow>
            if needs_broadcast env e then
              (case SetBroadcastFlag pc c of (c, err) \<Rightarrow>
                (case p_logger p of
                   None \<Rightarrow> Panics NilDereference
                 | Some lg \<Rightarrow>
                    Retry c ((if err \<noteq> None
                              then map LogLine (Warnf lg ''had EACCES syscall error, check your local firewall'' [])
                              else [])
                           @ map LogLine (Infof lg ''Pinging a broadcast address'' []))))
            else
              (let evs = (if OnSendError p then [CallOnSendError (out_packet p msgBytes) e] else [])
               in if op_ENOBUFS e then Retry c evs else Returns (Some e) c p evs)
        | None \<Rightarrow>
            (let evs = (if OnSend p then [CallOnSend (out_packet p msgBytes)] else [])
             in case record_sent newUUID currentUUID p of
                  Inl pn \<Rightarrow> Panics pn
                | Inr p \<Rightarrow> Returns None c p evs)))"

partial_function (option) send_loop ::
  "'u env \<Rightarrow> 'c packet_conn \<Rightarrow> byte list \<Rightarrow> net_addr \<Rightarrow> 'u \<Rightarrow> 'u \<Rightarrow> 'u pinger \<Rightarrow> 'c \<Rightarrow> event list \<Rightarrow> ('c, 'u) sent option"
where
  "send_loop env pc msgBytes dst newUUID currentUUID p c evs =
     (case send_attempt env pc msgBytes dst newUUID currentUUID p c of
        Retry c evs' \<Rightarrow> send_loop env pc msgBytes dst newUUID currentUUID p c (evs @ evs')
      | Returns err c p evs' \<Rightarrow> Some (Inr (err, c, p, evs @ evs'))
      | Panics pn \<Rightarrow> Some (Inl pn))"

section \<open>sendICMP\<close>

text \<open>Up to the loop: the destination, the current tracker and the marshalled message, or an error.\<close>

definition send_begin ::
  "'u env \<Rightarrow> 'c packet_conn \<Rightarrow> time \<Rightarrow> 'c \<Rightarrow> 'u pinger \<Rightarrow> (go_error + (net_addr \<times> 'u \<times> byte list)) go" where
  "send_begin env pc now c p =
     go_bind (send_dst p) (\<lambda>dst.
       go_bind (getCurrentTrackerUUID p) (\<lambda>currentUUID.
         case uuid_Marshal env currentUUID of
           Inl err \<Rightarrow> Inr (Inl (E_marshal_uuid err))
         | Inr uuidEncoded \<Rightarrow>
             let t = send_payload p now uuidEncoded;
                 body = Echo (ident p) (sequence p) t;
                 msg = \<lparr>msg_Type = ICMPRequestType pc c, msg_Code = 0, msg_Body = body\<rparr>
             in case icmp_Marshal env msg of
                  Inl err \<Rightarrow> Inr (Inl err)
                | Inr msgBytes \<Rightarrow> Inr (Inr (dst, currentUUID, msgBytes))))"

definition sendICMP ::
  "'u env \<Rightarrow> 'c packet_conn \<Rightarrow> time \<Rightarrow> 'u \<Rightarrow> 'c \<Rightarrow> 'u pinger \<Rightarrow> ('c, 'u) sent option" where
  "sendICMP env pc now newUUID c p = (case send_begin env pc now c p of
       Inl pn \<Rightarrow> Some (Inl pn)
     | Inr (Inl err) \<Rightarrow> Some (Inr (Some err, c, p, []))
     | Inr (Inr (dst, currentUUID, msgBytes)) \<Rightarrow> send_loop env pc msgBytes dst newUUID currentUUID p c [])"

section \<open>Retries\<close>

text \<open>The writes that are repeated, and the connection before the \<open>k\<close>-th attempt.\<close>

definition retryable :: "'u env \<Rightarrow> go_error \<Rightarrow> bool" where
  "retryable env e \<longleftrightarrow> needs_broadcast env e \<or> op_ENOBUFS e"

definition attempt_err :: "'c packet_conn \<Rightarrow> byte list \<Rightarrow> net_addr \<Rightarrow> 'c \<Rightarrow> go_error option" where
  "attempt_err pc b dst c = snd (snd (WriteTo pc c b dst))"

definition after_failure :: "'u env \<Rightarrow> 'c packet_conn \<Rightarrow> byte list \<Rightarrow> net_addr \<Rightarrow> 'c \<Rightarrow> 'c" where
  "after_failure env pc b dst c =
     (let c' = fst (WriteTo pc c b dst)
      in case attempt_err pc b dst c of
           Some e \<Rightarrow> if needs_broadcast env e then fst (SetBroadcastFlag pc c') else c'
         | None \<Rightarrow> c')"

definition final_attempt :: "'u env \<Rightarrow> 'c packet_conn \<Rightarrow> byte list \<Rightarrow> net_addr \<Rightarrow> 'c \<Rightarrow> bool" where
  "final_attempt env pc b dst c \<longleftrightarrow> (\<forall>e. attempt_err pc b dst c = Some e \<longrightarrow> \<not> retryable env e)"

lemma send_loop_retry:
  assumes "\<not> final_attempt env pc b dst c" "p_logger p \<noteq> None"
  shows "\<exists>evs'. send_loop env pc b dst new cur p c evs = send_loop env pc b dst new cur p (after_failure env pc b dst c) evs'"
proof -
  obtain c1 n err where w: "WriteTo pc c b dst = (c1, n, err)" by (metis prod_cases3)
  from assms(1) obtain e where e: "err = Some e" "retryable env e"
    by (auto simp: final_attempt_def attempt_err_def w)
  from assms(2) obtain lg where lg: "p_logger p = Some lg" by auto
  show ?thesis
    using e lg by (subst send_loop.simps)
      (auto simp: send_attempt_def w attempt_err_def after_failure_def retryable_def split: prod.split)
qed

text \<open>The last attempt decides: an error is returned with the pinger unchanged, a success is recorded.\<close>

lemma send_loop_final:
  assumes "final_attempt env pc b dst c"
  shows "\<exists>evs'. send_loop env pc b dst new cur p c evs = Some
    (case attempt_err pc b dst c of
       Some e \<Rightarrow> Inr (Some e, fst (WriteTo pc c b dst), p, evs')
     | None \<Rightarrow> go_bind (record_sent new cur p) (\<lambda>q. Inr (None, fst (WriteTo pc c b dst), q, evs')))"
proof -
  obtain c1 n err where w: "WriteTo pc c b dst = (c1, n, err)" by (metis prod_cases3)
  show ?thesis
    using assms by (subst send_loop.simps)
      (auto simp: send_attempt_def w attempt_err_def final_attempt_def retryable_def go_bind_def split: option.split sum.split)
qed

lemma send_loop_returns:
  assumes "final_attempt env pc b dst ((after_failure env pc b dst ^^ k) c)" "p_logger p \<noteq> None"
  shows "\<exists>r. send_loop env pc b dst new cur p c evs = Some r"
  using assms(1)
proof (induction k arbitrary: c evs)
  case 0
  then have "final_attempt env pc b dst c" by simp
  from send_loop_final [OF this, of new cur p evs] show ?case by blast
next
  case (Suc k)
  show ?case
  proof (cases "final_attempt env pc b dst c")
    case True
    from send_loop_final [OF this, of new cur p evs] show ?thesis by blast
  next
    case False
    from send_loop_retry [OF this assms(2), of new cur evs] obtain evs' where
      "send_loop env pc b dst new cur p c evs = send_loop env pc b dst new cur p (after_failure env pc b dst c) evs'" ..
    with Suc show ?thesis by (simp add: funpow_swap1)
  qed
qed

text \<open>
  What a loop that returns has seen: a first final attempt after some retries, or, without a
  logger to write to, a request to broadcast that panicked.
\<close>

definition attempt_result ::
  "'c packet_conn \<Rightarrow> byte list \<Rightarrow> net_addr \<Rightarrow> 'u \<Rightarrow> 'u \<Rightarrow> 'u pinger \<Rightarrow> 'c \<Rightarrow> event list \<Rightarrow> ('c, 'u) sent" where
  "attempt_result pc b dst new cur p c evs = (case attempt_err pc b dst c of
     Some e \<Rightarrow> Inr (Some e, fst (WriteTo pc c b dst), p, evs)
   | None \<Rightarrow> go_bind (record_sent new cur p) (\<lambda>q. Inr (None, fst (WriteTo pc c b dst), q, evs)))"

definition loop_outcome ::
  "'u env \<Rightarrow> 'c packet_conn \<Rightarrow> byte list \<Rightarrow> net_addr \<Rightarrow> 'u \<Rightarrow> 'u \<Rightarrow> 'u pinger \<Rightarrow> 'c \<Rightarrow> ('c, 'u) sent \<Rightarrow> bool" where
  "loop_outcome env pc b dst new cur p c r \<longleftrightarrow>
     (\<exists>k evs. final_attempt env pc b dst ((after_failure env pc b dst ^^ k) c) \<and>
        r = attempt_result pc b dst new cur p ((after_failure env pc b dst ^^ k) c) evs) \<or>
     (p_logger p = None \<and> r = Inl NilDereference)"

lemma loop_outcome_retry:
  assumes "loop_outcome env pc b dst new cur p (after_failure env pc b dst c) r"
  shows "loop_outcome env pc b dst new cur p c r"
proof -
  have "(after_failure env pc b dst ^^ k) (after_failure env pc b dst c) = (after_failure env pc b dst ^^ Suc k) c" for k
    by (simp add: funpow_swap1)
  with assms show ?thesis unfolding loop_outcome_def by metis
qed

lemma loop_outcome_final:
  "final_attempt env pc b dst c \<Longrightarrow> r = attempt_result pc b dst new cur p c evs \<Longrightarrow>
   loop_outcome env pc b dst new cur p c r"
  unfolding loop_outcome_def by (intro disjI1 exI [of _ 0] exI [of _ evs]) simp

text \<open>What each kind of round means.\<close>

lemma send_attempt_outcome:
  "case send_attempt env pc b dst new cur p c of
     Retry c' evs \<Rightarrow> c' = after_failure env pc b dst c \<and> \<not> final_attempt env pc b dst c
   | Returns err c' q evs \<Rightarrow> final_attempt env pc b dst c \<and> c' = fst (WriteTo pc c b dst) \<and>
       err = attempt_err pc b dst c \<and> (err \<noteq> None \<longrightarrow> q = p) \<and> (err = None \<longrightarrow> record_sent new cur p = Inr q)
   | Panics pn \<Rightarrow> (p_logger p = None \<and> pn = NilDereference) \<or>
       (final_attempt env pc b dst c \<and> attempt_err pc b dst c = None \<and> record_sent new cur p = Inl pn)"
proof -
  obtain c1 n err where w: "WriteTo pc c b dst = (c1, n, err)" by (metis prod_cases3)
  obtain c2 e2 where sb: "SetBroadcastFlag pc c1 = (c2, e2)" by (cases "SetBroadcastFlag pc c1")
  show ?thesis
    by (cases err; cases "p_logger p"; cases "record_sent new cur p")
      (auto simp: send_attempt_def w sb after_failure_def attempt_err_def final_attempt_def retryable_def Let_def)
qed

lemma send_loop_outcome:
  "send_loop env pc b dst new cur p c evs = Some r \<Longrightarrow> loop_outcome env pc b dst new cur p c r"
proof (induction rule: send_loop.raw_induct [rotated, consumes 1, case_names step])
  case (step loop env pc b dst new cur p c evs r)
  show ?case
  proof (cases "send_attempt env pc b dst new cur p c")
    case (Retry c2 evs2)
    with send_attempt_outcome [of env pc b dst c p new cur] have "after_failure env pc b dst c = c2" by simp
    with step(2) Retry show ?thesis
      by - (rule loop_outcome_retry, rule step(1), simp)
  next
    case (Returns err c2 q evs2)
    with send_attempt_outcome [of env pc b dst c p new cur] step(2) show ?thesis
      by (intro loop_outcome_final [where evs = "evs @ evs2"]) (auto simp: attempt_result_def split: option.splits)
  next
    case (Panics pn)
    with step(2) have r: "r = Inl pn" by simp
    from send_attempt_outcome [of env pc b dst c p new cur] Panics show ?thesis
    proof (simp, elim disjE conjE)
      assume "p_logger p = None" "pn = NilDereference"
      with r show ?thesis by (simp add: loop_outcome_def)
    next
      assume "final_attempt env pc b dst c" "attempt_err pc b dst c = None" "record_sent new cur p = Inl pn"
      with r show ?thesis by (intro loop_outcome_final [where evs = "[]"]) (simp_all add: attempt_result_def)
    qed
  qed
qed

section \<open>The request and its effect\<close>

text \<open>The call reaches the write loop, with the message \<open>b\<close> for \<open>dst\<close> under the tracker \<open>cur\<close>.\<close>

definition request ::
  "'u env \<Rightarrow> 'c packet_conn \<Rightarrow> time \<Rightarrow> 'c \<Rightarrow> 'u pinger \<Rightarrow> 'u \<Rightarrow> net_addr \<Rightarrow> byte list \<Rightarrow> bool" where
  "request env pc now c p cur dst b \<longleftrightarrow>
     send_dst p = Inr dst \<and> getCurrentTrackerUUID p = Inr cur \<and>
     (\<exists>enc. uuid_Marshal env cur = Inr enc \<and>
        icmp_Marshal env \<lparr>msg_Type = ICMPRequestType pc c, msg_Code = 0,
          msg_Body = Echo (ident p) (sequence p) (send_payload p now enc)\<rparr> = Inr b)"

lemma sendICMP_request:
  "request env pc now c p cur dst b \<Longrightarrow> sendICMP env pc now new c p = send_loop env pc b dst new cur p c []"
  by (auto simp: request_def sendICMP_def send_begin_def Let_def)

text \<open>Everything else returns at once: a panic, or an error with nothing changed.\<close>

lemma sendICMP_no_request:
  assumes "\<And>cur dst b. \<not> request env pc now c p cur dst b"
  shows "(\<exists>e. sendICMP env pc now new c p = Some (Inl e)) \<or> (\<exists>e. sendICMP env pc now new c p = Some (Inr (Some e, c, p, [])))"
  using assms by (cases "send_dst p"; cases "getCurrentTrackerUUID p")
    (auto simp: sendICMP_def send_begin_def Let_def request_def split: sum.split)

lemma getCurrentTrackerUUID_last:
  "getCurrentTrackerUUID p = (if trackerUUIDs p = [] then Inl IndexOutOfRange else Inr (last (trackerUUIDs p)))"
  by (simp add: getCurrentTrackerUUID_def index_def last_conv_nth)

text \<open>The pinger after a request with the tracker \<open>cur\<close>, whose set is \<open>S\<close>.\<close>

definition after_send :: "'u \<Rightarrow> 'u \<Rightarrow> int set \<Rightarrow> 'u pinger \<Rightarrow> 'u pinger" where
  "after_send new cur S p =
     (let aw = (awaitingSequences p)(cur \<mapsto> insert (sequence p) S);
          p' = p\<lparr>PacketsSent := i64 (PacketsSent p + 1), awaitingSequences := aw\<rparr>
      in if sequence p < 65535 then p'\<lparr>sequence := sequence p + 1\<rparr>
         else p'\<lparr>sequence := 0, trackerUUIDs := trackerUUIDs p @ [new], awaitingSequences := aw(new \<mapsto> {})\<rparr>)"

lemma record_sent_eq:
  assumes "0 \<le> sequence p" "sequence p \<le> 65535"
  shows "record_sent new cur p =
    (case awaitingSequences p cur of None \<Rightarrow> Inl NilMapWrite | Some S \<Rightarrow> Inr (after_send new cur S p))"
proof -
  have "i64 (sequence p + 1) = sequence p + 1"
    using assms by (intro i64_id) (simp add: is_i64_def)
  then show ?thesis
    using assms by (auto simp: record_sent_def after_send_def Let_def split: option.split)
qed

lemma sendICMP_Inr:
  assumes "sendICMP env pc now new c p = Some (Inr (err, c', q, evs))"
  shows "(err \<noteq> None \<longrightarrow> q = p) \<and> (err = None \<longrightarrow> (\<exists>cur dst b. request env pc now c p cur dst b \<and> record_sent new cur p = Inr q))"
proof (cases "\<exists>cur dst b. request env pc now c p cur dst b")
  case True
  then obtain cur dst b where r: "request env pc now c p cur dst b" by blast
  with assms have "loop_outcome env pc b dst new cur p c (Inr (err, c', q, evs))"
    by (intro send_loop_outcome) (simp add: sendICMP_request)
  with r show ?thesis
    by (auto simp: loop_outcome_def attempt_result_def go_bind_def split: option.splits sum.splits)
next
  case False
  with sendICMP_no_request [of env pc now c p new] assms show ?thesis by auto
qed

section \<open>The data of a request\<close>

lemma send_payload_split:
  assumes "length enc = 16" "0 \<le> Size p" "Size p < 2 ^ 63"
  shows "\<exists>pad. send_payload p now enc = timeToBytes now @ enc @ pad \<and> length pad = nat (Size p - 24)"
proof -
  have "i64 (Size p - 24) = Size p - 24"
    using assms by (intro i64_id) (simp add: is_i64_def)
  moreover have "length (concat (replicate k [1 :: byte])) = k" for k by (induction k) simp_all
  ultimately show ?thesis by (auto simp: send_payload_def Let_def)
qed

lemma length_send_payload:
  assumes "length enc = 16" "24 \<le> Size p" "Size p < 2 ^ 63"
  shows "int (length (send_payload p now enc)) = Size p"
proof -
  obtain pad where "send_payload p now enc = timeToBytes now @ enc @ pad" "length pad = nat (Size p - 24)"
    using send_payload_split [OF assms(1), of p now] assms(2,3) by auto
  then show ?thesis using assms(1,2) by (simp add: timeToBytes_def)
qed

section \<open>The connection under a send\<close>

text \<open>On every connection that keeps its configuration, the loop does.\<close>

context conn_inv begin

lemma inv_after_failure: "I c \<Longrightarrow> I (after_failure env pc b dst c)"
  by (simp add: after_failure_def Let_def inv_calls split: option.split)

lemma inv_attempts: "I c \<Longrightarrow> I ((after_failure env pc b dst ^^ k) c)"
  by (induction k) (simp_all add: inv_after_failure)

lemma inv_sendICMP:
  assumes "sendICMP env pc now new c p = Some (Inr (err, c', q, evs))" "I c"
  shows "I c'"
proof (cases "\<exists>cur dst b. request env pc now c p cur dst b")
  case True
  then obtain cur dst b where r: "request env pc now c p cur dst b" by blast
  with assms have "loop_outcome env pc b dst new cur p c (Inr (err, c', q, evs))"
    by (intro send_loop_outcome) (simp add: sendICMP_request)
  then obtain k where "c' = fst (WriteTo pc ((after_failure env pc b dst ^^ k) c) b dst)"
    by (auto simp: loop_outcome_def attempt_result_def go_bind_def split: option.splits sum.splits)
  with assms(2) show ?thesis by (simp add: inv_calls inv_attempts)
next
  case False
  with sendICMP_no_request [of env pc now c p new] assms show ?thesis by auto
qed

end

section \<open>Properties\<close>

text \<open>
  C18. When a request has been built and there is a logger, \<^verbatim>\<open>sendICMP\<close> returns exactly if one of
  its attempts is final, that is, succeeds or fails with an error the loop does not retry; there
  is no other bound on the attempts.
\<close>

theorem sendICMP_returns_iff:
  assumes "request env pc now c p cur dst b" "p_logger p \<noteq> None"
  shows "(\<exists>r. sendICMP env pc now new c p = Some r) \<longleftrightarrow>
    (\<exists>k. final_attempt env pc b dst ((after_failure env pc b dst ^^ k) c))"
proof -
  have "\<exists>k. final_attempt env pc b dst ((after_failure env pc b dst ^^ k) c)"
    if "send_loop env pc b dst new cur p c [] = Some r" for r
    using send_loop_outcome [OF that] assms(2) by (auto simp: loop_outcome_def)
  with send_loop_returns [of env pc b dst, where evs = "[]" and new = new and cur = cur] assms
  show ?thesis by (auto simp: sendICMP_request)
qed

text \<open>
  C26. On Linux a socket that answers every write with a permission error keeps \<^verbatim>\<open>sendICMP\<close>
  from ever returning, whatever setting the broadcast flag answers: the flag is set again and the
  write repeated without end, and neither the stop channel nor a timeout is looked at.
\<close>

theorem broadcast_livelock:
  assumes "request env pc now c p cur dst b" "p_logger p \<noteq> None" "GOOS env = Linux"
    and "\<And>c. \<exists>e. attempt_err pc b dst c = Some e \<and> errors_Is e EACCES"
  shows "sendICMP env pc now new c p = None"
proof -
  have "\<not> final_attempt env pc b dst c" for c
    using assms(3) assms(4) [of c] by (auto simp: final_attempt_def retryable_def needs_broadcast_def)
  then have "send_loop env pc b dst new cur p c [] \<noteq> Some r" for r
    using send_loop_outcome [of env pc b dst new cur p c "[]" r] assms(2) by (auto simp: loop_outcome_def)
  then have "send_loop env pc b dst new cur p c [] = None" by (metis not_None_eq)
  with assms(1) show ?thesis by (simp add: sendICMP_request)
qed

text \<open>
  C32. The retry on a full buffer compares the inner error itself: a write error that wraps
  \<^verbatim>\<open>ENOBUFS\<close> in a system call error, the form package \<^verbatim>\<open>net\<close> gives it, is \<^verbatim>\<open>ENOBUFS\<close> for
  \<^verbatim>\<open>errors.Is\<close> but ends the send with that error at once, the pinger unchanged and
  \<^verbatim>\<open>OnSendError\<close> called if set.
\<close>

theorem wrapped_ENOBUFS_final:
  assumes "request env pc now c p cur dst b"
    and "attempt_err pc b dst c = Some e" "e = OpError tmo (SyscallError call (Errno ENOBUFS))"
  shows "errors_Is e ENOBUFS \<and>
    sendICMP env pc now new c p = Some (Inr (Some e, fst (WriteTo pc c b dst), p,
      if OnSendError p then [CallOnSendError (out_packet p b) e] else []))"
proof -
  obtain c1 n err where w: "WriteTo pc c b dst = (c1, n, err)" by (metis prod_cases3)
  then have "err = Some e" using assms(2) by (simp add: attempt_err_def)
  moreover have "\<not> needs_broadcast env e" "\<not> op_ENOBUFS e" "errors_Is e ENOBUFS"
    using assms(3) by (simp_all add: needs_broadcast_def op_ENOBUFS_def)
  ultimately have "send_loop env pc b dst new cur p c [] = Some (Inr (Some e, c1, p,
      if OnSendError p then [CallOnSendError (out_packet p b) e] else []))"
    by (subst send_loop.simps) (simp add: send_attempt_def w)
  with assms(1) \<open>errors_Is e ENOBUFS\<close> show ?thesis by (simp add: sendICMP_request w)
qed

text \<open>
  C17. What a returning \<^verbatim>\<open>sendICMP\<close> leaves: after an error the pinger is unchanged; after a
  success one more packet is counted, the sequence number is in flight under the current tracker,
  and the next one is its successor, or 0 under a fresh tracker after 65535.
\<close>

theorem sendICMP_effect:
  assumes "sendICMP env pc now new c p = Some (Inr (err, c', q, evs))" "0 \<le> sequence p" "sequence p \<le> 65535"
  shows "(err \<noteq> None \<longrightarrow> q = p) \<and>
    (err = None \<longrightarrow> (\<exists>S. trackerUUIDs p \<noteq> [] \<and> awaitingSequences p (last (trackerUUIDs p)) = Some S \<and>
       q = after_send new (last (trackerUUIDs p)) S p))"
  using sendICMP_Inr [OF assms(1)] assms(2,3)
  by (auto simp: request_def getCurrentTrackerUUID_last record_sent_eq split: option.splits if_splits)

section \<open>Witnesses\<close>

text \<open>A connection whose \<open>k\<close>-th write fails with \<open>f k\<close>; its other operations do nothing.\<close>

definition sample_conn :: "(nat \<Rightarrow> go_error option) \<Rightarrow> nat packet_conn" where
  "sample_conn f = \<lparr>
     Close = (\<lambda>c. (c, None)), ICMPRequestType = (\<lambda>c. ipv4_ICMPTypeEcho),
     ReadFrom = (\<lambda>c b. (c, b, 0, 0, AddrOther 0, None)), SetFlagTTL = (\<lambda>c. (c, None)),
     SetReadDeadline = (\<lambda>c t. (c, None)), WriteTo = (\<lambda>c b dst. (c + 1, 0, f c)),
     SetTTL = (\<lambda>c n. c), c_SetMark = (\<lambda>c m. (c, None)), c_SetDoNotFragment = (\<lambda>c. (c, None)),
     SetBroadcastFlag = (\<lambda>c. (c, None)), SetIfIndex = (\<lambda>c i. c), SetSource = (\<lambda>c s. c),
     c_SetTrafficClass = (\<lambda>c tc. (c, None)), InstallICMPIDFilter = (\<lambda>c i. (c, None))\<rparr>"

definition sample_pinger :: "byte pinger" where
  "sample_pinger = (New ''10.0.0.1'' 7 0)\<lparr>ipaddr := Some (ip_of [10, 0, 0, 1]), ipv4 := True\<rparr>"

definition sample_dst :: net_addr where
  "sample_dst = AddrUDP [10, 0, 0, 1] ''''"

definition sample_request :: "byte list" where
  "sample_request = [8, 0, 0, 0, 0, 7, 0, 0] @ timeToBytes 5 @ replicate 16 0"

lemma sample_request:
  "request (sample_env os) (sample_conn f) 5 c sample_pinger 0 sample_dst sample_request"
  by (simp add: request_def sample_pinger_def New_def send_dst_def sample_dst_def ip_of_def getCurrentTrackerUUID_def
      index_def sample_env_def sample_Marshal_def sample_conn_def ipv4_ICMPTypeEcho_def send_payload_def
      sample_request_def Let_def i64_def)

lemma sample_attempt: "attempt_err (sample_conn f) b dst c = f c"
  by (simp add: attempt_err_def sample_conn_def)

lemma sample_logger: "p_logger sample_pinger \<noteq> None"
  by (simp add: sample_pinger_def New_def)

definition EACCES_error :: go_error where
  "EACCES_error = OpError False (SyscallError ''sendto'' (Errno EACCES))"

text \<open>Two writes are refused, the third succeeds.\<close>

theorem sendICMP_returns_iff_witness:
  "\<exists>r. sendICMP (sample_env Linux) (sample_conn (\<lambda>k. if k < 2 then Some EACCES_error else None)) 5 1 0 sample_pinger = Some r"
proof -
  let ?pc = "sample_conn (\<lambda>k. if k < 2 then Some EACCES_error else None)"
  have "after_failure (sample_env Linux) ?pc sample_request sample_dst k = k + 1" for k
    by (simp add: after_failure_def sample_attempt Let_def) (simp add: sample_conn_def)
  then have "final_attempt (sample_env Linux) ?pc sample_request sample_dst
      ((after_failure (sample_env Linux) ?pc sample_request sample_dst ^^ 2) 0)"
    by (simp add: final_attempt_def sample_attempt numeral_2_eq_2)
  with sendICMP_returns_iff [OF sample_request sample_logger] show ?thesis by blast
qed

theorem broadcast_livelock_witness:
  "sendICMP (sample_env Linux) (sample_conn (\<lambda>k. Some EACCES_error)) 5 1 0 sample_pinger = None"
  by (rule broadcast_livelock [OF sample_request sample_logger])
    (simp_all add: sample_env_def sample_attempt EACCES_error_def)

definition ENOBUFS_error :: go_error where
  "ENOBUFS_error = OpError False (SyscallError ''sendto'' (Errno ENOBUFS))"

theorem wrapped_ENOBUFS_final_witness:
  "\<exists>c evs. sendICMP (sample_env Darwin) (sample_conn (\<lambda>k. Some ENOBUFS_error)) 5 1 0 sample_pinger =
     Some (Inr (Some ENOBUFS_error, c, sample_pinger, evs))"
  using wrapped_ENOBUFS_final [OF sample_request sample_attempt ENOBUFS_error_def, of Darwin]
  by blast

theorem sendICMP_effect_witness:
  "\<exists>c evs q. sendICMP (sample_env Linux) (sample_conn (\<lambda>k. None)) 5 1 0 (sample_pinger\<lparr>sequence := 65535\<rparr>) =
     Some (Inr (None, c, q, evs)) \<and> trackerUUIDs q = [0, 1] \<and> sequence q = 0"
proof -
  let ?p = "sample_pinger\<lparr>sequence := 65535\<rparr>"
  have "\<exists>dst b. request (sample_env Linux) (sample_conn (\<lambda>k. None)) 5 0 ?p 0 dst b"
    by (simp add: request_def sample_pinger_def New_def send_dst_def getCurrentTrackerUUID_def
      index_def sample_env_def sample_Marshal_def)
  then obtain dst b where r: "request (sample_env Linux) (sample_conn (\<lambda>k. None)) 5 0 ?p 0 dst b" by blast
  have "\<exists>q. record_sent 1 0 ?p = Inr q"
    by (simp add: record_sent_def sample_pinger_def New_def Let_def)
  moreover have "final_attempt (sample_env Linux) (sample_conn (\<lambda>k. None)) b dst 0"
    by (simp add: final_attempt_def sample_attempt)
  note send_loop_final [OF this, of 1 0 ?p "[]"]
  ultimately obtain c evs q where s: "sendICMP (sample_env Linux) (sample_conn (\<lambda>k. None)) 5 1 0 ?p = Some (Inr (None, c, q, evs))"
    unfolding sendICMP_request [OF r] by (auto simp: sample_attempt)
  with sendICMP_effect [OF s] show ?thesis
    by (auto simp: after_send_def sample_pinger_def New_def Let_def)
qed

end
