(* ===== verification/Pinger_Tracker.thy ===== *)
theory Pinger_Tracker
  imports Pinger_Send
begin

text \<open>
  The sequence numbers in flight over a whole run: what \<^verbatim>\<open>sendICMP\<close> and \<^verbatim>\<open>processPacket\<close>
  of \<^verbatim>\<open>ping.go\<close> do together to \<^verbatim>\<open>trackerUUIDs\<close>, \<^verbatim>\<open>sequence\<close>,
  \<^verbatim>\<open>awaitingSequences\<close> and the counters. A request is known by its key, the pair of its
  tracker and its sequence number. The locale \<open>inflight_spec\<close> is the contract of a set of
  requests in flight; the pinger is its instance.
\<close>

section \<open>The contract\<close>

text \<open>A request with a new key is sent; a reply with a key arrives; anything else happens.\<close>

datatype 'k track_event = Push 'k | Pull 'k | Idle

inductive steps :: "('k track_event \<Rightarrow> 'p \<Rightarrow> 'p \<Rightarrow> bool) \<Rightarrow> 'p \<Rightarrow> 'k track_event list \<Rightarrow> 'p \<Rightarrow> bool"
  for step :: "'k track_event \<Rightarrow> 'p \<Rightarrow> 'p \<Rightarrow> bool" and p :: 'p where
  steps_refl: "steps step p [] p"
| steps_snoc: "steps step p es q \<Longrightarrow> step e q r \<Longrightarrow> steps step p (es @ [e]) r"

lemma steps_one: "step e p q \<Longrightarrow> steps step p [e] q"
  using steps_snoc [of step p "[]" p e q] steps_refl [of step p] by simp

text \<open>The keys sent, and those that were answered after they were sent.\<close>

definition pushed :: "'k track_event list \<Rightarrow> 'k list" where
  "pushed es = concat (map (\<lambda>e. case e of Push k \<Rightarrow> [k] | _ \<Rightarrow> []) es)"

definition answered :: "'k track_event list \<Rightarrow> 'k set" where
  "answered es = {k. \<exists>xs ys zs. es = xs @ Push k # ys @ Pull k # zs}"

lemma pushed_simps [simp]:
  "pushed [] = []" "pushed (es @ [Push k]) = pushed es @ [k]" "pushed (es @ [Pull k]) = pushed es"
  "pushed (es @ [Idle]) = pushed es"
  by (simp_all add: pushed_def)

lemma set_pushed: "k \<in> set (pushed es) \<longleftrightarrow> Push k \<in> set es"
  by (force simp: pushed_def split: track_event.splits)

lemma answered_snoc: "answered (es @ [e]) = answered es \<union> {k. e = Pull k \<and> Push k \<in> set es}"
proof (rule set_eqI)
  fix k
  show "k \<in> answered (es @ [e]) \<longleftrightarrow> k \<in> answered es \<union> {k. e = Pull k \<and> Push k \<in> set es}"
  proof
    assume "k \<in> answered (es @ [e])"
    then obtain xs ys zs where eq: "es @ [e] = xs @ Push k # ys @ Pull k # zs" by (auto simp: answered_def)
    show "k \<in> answered es \<union> {k. e = Pull k \<and> Push k \<in> set es}"
    proof (cases zs rule: rev_cases)
      case Nil
      then have "es @ [e] = (xs @ Push k # ys) @ [Pull k]" using eq by simp
      then have "es = xs @ Push k # ys" "e = Pull k" unfolding append1_eq_conv by simp_all
      then show ?thesis by simp
    next
      case (snoc zs' z)
      then have "es @ [e] = (xs @ Push k # ys @ Pull k # zs') @ [z]" using eq by simp
      then have "es = xs @ Push k # ys @ Pull k # zs'" unfolding append1_eq_conv by simp
      then show ?thesis by (auto simp: answered_def)
    qed
  next
    assume "k \<in> answered es \<union> {k. e = Pull k \<and> Push k \<in> set es}"
    then show "k \<in> answered (es @ [e])"
    proof
      assume "k \<in> answered es"
      then obtain xs ys zs where "es = xs @ Push k # ys @ Pull k # zs" by (auto simp: answered_def)
      then have "es @ [e] = xs @ Push k # ys @ Pull k # (zs @ [e])" by simp
      then show ?thesis unfolding answered_def by blast
    next
      assume "k \<in> {k. e = Pull k \<and> Push k \<in> set es}"
      then obtain xs ys where "e = Pull k" "es = xs @ Push k # ys" by (auto simp: in_set_conv_decomp)
      then have "es @ [e] = xs @ Push k # ys @ Pull k # []" by simp
      then show ?thesis unfolding answered_def by blast
    qed
  qed
qed

lemma answered_simps [simp]:
  "answered [] = {}" "answered (es @ [Push k]) = answered es" "answered (es @ [Idle]) = answered es"
  "answered (es @ [Pull k]) = (if k \<in> set (pushed es) then insert k (answered es) else answered es)"
  by (auto simp: answered_snoc set_pushed) (simp add: answered_def)

lemma answered_pushed: "answered es \<subseteq> set (pushed es)"
  by (auto simp: answered_def set_pushed)

locale inflight_spec =
  fixes step :: "'k track_event \<Rightarrow> 'p \<Rightarrow> 'p \<Rightarrow> bool"
    and inv :: "'p \<Rightarrow> bool"
    and used pending :: "'p \<Rightarrow> 'k set"
    and sent received :: "'p \<Rightarrow> int"
  assumes push: "inv p \<Longrightarrow> step (Push k) p q \<Longrightarrow>
      inv q \<and> k \<notin> used p \<and> used q = insert k (used p) \<and> pending q = insert k (pending p) \<and>
      sent q = sent p + 1 \<and> received q = received p"
    and pull: "inv p \<Longrightarrow> step (Pull k) p q \<Longrightarrow>
      inv q \<and> used q = used p \<and> pending q = pending p - {k} \<and> sent q = sent p \<and>
      received q = received p + (if k \<in> pending p then 1 else 0)"
    and idle: "inv p \<Longrightarrow> step Idle p q \<Longrightarrow>
      inv q \<and> used q = used p \<and> pending q = pending p \<and> sent q = sent p \<and> received q = received p"
begin

text \<open>From an empty start, the counters are the numbers of keys sent and of keys answered, each once.\<close>

lemma accounting:
  assumes "steps step p es q" "inv p" "used p = {}" "pending p = {}"
  shows "inv q \<and> distinct (pushed es) \<and> used q = set (pushed es) \<and> pending q = set (pushed es) - answered es \<and>
    sent q = sent p + int (length (pushed es)) \<and> received q = received p + int (card (answered es))"
  using assms(1)
proof (induction rule: steps.induct)
  case (steps_snoc es q e r)
  show ?case
  proof (cases e)
    case (Push k)
    with steps_snoc push [of q k r] have "k \<notin> set (pushed es)" by auto
    moreover from this have "k \<notin> answered es" using answered_pushed [of es] by blast
    ultimately show ?thesis using steps_snoc Push push [of q k r] by auto
  next
    case (Pull k)
    moreover have "finite (answered es)" using answered_pushed by (rule finite_subset) simp
    ultimately show ?thesis using steps_snoc pull [of q k r] answered_pushed [of es]
      by (auto simp: card_insert_if)
  next
    case Idle
    with steps_snoc idle [of q r] show ?thesis by auto
  qed
qed (use assms in simp_all)

text \<open>So what was sent and not yet counted as received is exactly what is in flight.\<close>

lemma balance:
  assumes "steps step p es q" "inv p" "used p = {}" "pending p = {}"
  shows "finite (pending q)" "sent q - sent p = received q - received p + int (card (pending q))"
proof -
  note a = accounting [OF assms]
  then show fin: "finite (pending q)" by simp
  have "card (set (pushed es)) = card (answered es) + card (pending q)"
    using a answered_pushed [of es] by (simp add: card_Diff_subset finite_subset card_mono)
  then show "sent q - sent p = received q - received p + int (card (pending q))"
    using a by (simp add: distinct_card)
qed

end

section \<open>The pinger as an instance\<close>

text \<open>
  The calls a run makes: a send that succeeds, drawing a UUID that is not one of the
  pinger's, with the counter below its maximum; a reply to the pinger processed; and every other
  call that returns.
\<close>

fun tracker_step :: "'u env \<Rightarrow> 'c packet_conn \<Rightarrow> ('u \<times> int) track_event \<Rightarrow> 'u pinger \<Rightarrow> 'u pinger \<Rightarrow> bool" where
  "tracker_step env pc (Push k) p q \<longleftrightarrow>
     (\<exists>now new c c' evs. sendICMP env pc now new c p = Some (Inr (None, c', q, evs)) \<and>
        new \<notin> set (trackerUUIDs p) \<and> k = (last (trackerUUIDs p), sequence p) \<and> PacketsSent p < 2 ^ 63 - 1)"
| "tracker_step env pc (Pull k) p q \<longleftrightarrow>
     (\<exists>now recv d err evs. reply_to env p recv (fst k) (snd k) d \<and> processPacket env now recv p = Inr (err, q, evs))"
| "tracker_step env pc Idle p q \<longleftrightarrow>
     (\<exists>now recv err evs. (\<forall>u n d. \<not> reply_to env p recv u n d) \<and> processPacket env now recv p = Inr (err, q, evs)) \<or>
     (\<exists>now new c e c' evs. sendICMP env pc now new c p = Some (Inr (Some e, c', q, evs)))"

definition used_keys :: "'u pinger \<Rightarrow> ('u \<times> int) set" where
  "used_keys p = {(u, n). u \<in> set (trackerUUIDs p) \<and> 0 \<le> n \<and>
     (if u = last (trackerUUIDs p) then n < sequence p else n \<le> 65535)}"

definition pending_keys :: "'u pinger \<Rightarrow> ('u \<times> int) set" where
  "pending_keys p = {(u, n). inflight p u n}"

definition tracked :: "'u pinger \<Rightarrow> bool" where
  "tracked p \<longleftrightarrow> trackerUUIDs p \<noteq> [] \<and> distinct (trackerUUIDs p) \<and>
     dom (awaitingSequences p) = set (trackerUUIDs p) \<and> 0 \<le> sequence p \<and> sequence p \<le> 65535 \<and>
     finite (pending_keys p) \<and> pending_keys p \<subseteq> used_keys p \<and> 0 \<le> PacketsRecv p \<and> PacketsSent p < 2 ^ 63 \<and>
     PacketsSent p = PacketsRecv p + int (card (pending_keys p))"

text \<open>A configured pinger has sent nothing.\<close>

lemma tracked_configured:
  assumes "configured u p"
  shows "tracked p" "used_keys p = {}" "pending_keys p = {}"
proof -
  show "used_keys p = {}" "pending_keys p = {}"
    using assms by (auto simp: configured_def used_keys_def pending_keys_def inflight_def split: if_splits)
  then show "tracked p" using assms by (auto simp: configured_def tracked_def)
qed

lemma pending_delete: "pending_keys (delete_awaiting u n p) = pending_keys p - {(u, n)}"
  by (auto simp: pending_keys_def inflight_def delete_awaiting_def split: option.splits if_splits)

lemma dom_delete [simp]: "dom (awaitingSequences (delete_awaiting u n p)) = dom (awaitingSequences p)"
  by (auto simp: delete_awaiting_def split: option.splits)

lemma used_cong:
  "trackerUUIDs q = trackerUUIDs p \<Longrightarrow> sequence q = sequence p \<Longrightarrow> used_keys q = used_keys p"
  by (simp add: used_keys_def)

lemma pending_cong: "awaitingSequences q = awaitingSequences p \<Longrightarrow> pending_keys q = pending_keys p"
  by (simp add: pending_keys_def inflight_def)

text \<open>A duplicate leaves everything of this, an answer takes its key out and counts it.\<close>

lemma tracked_duplicate: "tracked p \<Longrightarrow> tracked (p\<lparr>PacketsRecvDuplicates := n\<rparr>)"
  using used_cong [of "p\<lparr>PacketsRecvDuplicates := n\<rparr>" p] pending_cong [of "p\<lparr>PacketsRecvDuplicates := n\<rparr>" p]
  by (simp add: tracked_def)

lemma updateStatistics_frame:
  assumes "updateStatistics k p = Inr q"
  shows "trackerUUIDs q = trackerUUIDs p" "sequence q = sequence p" "awaitingSequences q = awaitingSequences p"
    "PacketsSent q = PacketsSent p" "PacketsRecv q = i64 (PacketsRecv p + 1)"
    "PacketsRecvDuplicates q = PacketsRecvDuplicates p" "OnRecv q = OnRecv p" "OnDuplicateRecv q = OnDuplicateRecv p"
proof -
  have "i64 (PacketsRecv p + 1) \<noteq> 0"
    using assms by (auto simp: updateStatistics_def Let_def split: if_splits)
  from updateStatistics_fields [OF this, of k] assms
  show "trackerUUIDs q = trackerUUIDs p" "sequence q = sequence p" "awaitingSequences q = awaitingSequences p"
    "PacketsSent q = PacketsSent p" "PacketsRecv q = i64 (PacketsRecv p + 1)"
    "PacketsRecvDuplicates q = PacketsRecvDuplicates p" "OnRecv q = OnRecv p" "OnDuplicateRecv q = OnDuplicateRecv p"
    by auto
qed

lemma updateStatistics_keeps:
  assumes "updateStatistics k p = Inr q"
  shows "p_logger q = p_logger p" "ipaddr q = ipaddr p" "ipv4 q = ipv4 p" "protocol q = protocol p"
    "ident q = ident p" "trackerUUIDs q = trackerUUIDs p" "done_chan q = done_chan p" "Count q = Count p"
    "Interval q = Interval p" "Timeout q = Timeout p" "Size q = Size p" "OnSend q = OnSend p" "OnFinish q = OnFinish p"
proof -
  have "i64 (PacketsRecv p + 1) \<noteq> 0"
    using assms by (auto simp: updateStatistics_def Let_def split: if_splits)
  from updateStatistics_fields [OF this, of k] assms
  show "p_logger q = p_logger p" "ipaddr q = ipaddr p" "ipv4 q = ipv4 p" "protocol q = protocol p"
    "ident q = ident p" "trackerUUIDs q = trackerUUIDs p" "done_chan q = done_chan p" "Count q = Count p"
    "Interval q = Interval p" "Timeout q = Timeout p" "Size q = Size p" "OnSend q = OnSend p" "OnFinish q = OnFinish p"
    by auto
qed

lemma delete_awaiting_keeps:
  "p_logger (delete_awaiting u n p) = p_logger p" "ipaddr (delete_awaiting u n p) = ipaddr p"
  "ipv4 (delete_awaiting u n p) = ipv4 p" "protocol (delete_awaiting u n p) = protocol p"
  "ident (delete_awaiting u n p) = ident p" "done_chan (delete_awaiting u n p) = done_chan p"
  "Count (delete_awaiting u n p) = Count p" "Interval (delete_awaiting u n p) = Interval p"
  "Timeout (delete_awaiting u n p) = Timeout p" "Size (delete_awaiting u n p) = Size p"
  "OnSend (delete_awaiting u n p) = OnSend p" "OnFinish (delete_awaiting u n p) = OnFinish p"
  by (simp_all add: delete_awaiting_def split: option.split)

lemma tracked_answer:
  assumes p: "tracked p" and k: "inflight p u n" and q: "updateStatistics k (delete_awaiting u n p) = Inr q"
  shows "tracked q \<and> used_keys q = used_keys p \<and> pending_keys q = pending_keys p - {(u, n)} \<and>
    PacketsSent q = PacketsSent p \<and> PacketsRecv q = PacketsRecv p + 1"
proof -
  note f = updateStatistics_frame [OF q]
  have mem: "(u, n) \<in> pending_keys p" using k by (simp add: pending_keys_def)
  then have "0 < card (pending_keys p)" using p by (auto simp: tracked_def card_gt_0_iff)
  then have "PacketsRecv p < 2 ^ 63 - 1" "is_i64 (PacketsRecv p)"
    using p by (auto simp: tracked_def is_i64_def)
  then have recv: "PacketsRecv q = PacketsRecv p + 1"
    using f(5) i64_succ [of "PacketsRecv p"] by simp
  have used: "used_keys q = used_keys p" using f by (intro used_cong) simp_all
  have pend: "pending_keys q = pending_keys p - {(u, n)}"
    using pending_cong [OF f(3)] pending_delete [of u n p] by simp
  have "card (pending_keys p) = Suc (card (pending_keys p - {(u, n)}))"
    using mem p by (intro card.remove) (simp_all add: tracked_def)
  then have "tracked q" using p f recv used pend by (auto simp: tracked_def)
  with used pend recv f show ?thesis by simp
qed

text \<open>A send adds a key that was never used.\<close>

lemma pending_after_send:
  assumes "tracked p" "awaitingSequences p (last (trackerUUIDs p)) = Some S" "new \<notin> set (trackerUUIDs p)"
  shows "pending_keys (after_send new (last (trackerUUIDs p)) S p) =
    insert (last (trackerUUIDs p), sequence p) (pending_keys p)"
proof -
  have "awaitingSequences p new = None" "last (trackerUUIDs p) \<noteq> new"
    using assms by (auto simp: tracked_def domIff)
  with assms(2) show ?thesis
    by (auto simp: pending_keys_def inflight_def after_send_def Let_def split: option.splits if_splits)
qed

lemma used_after_send:
  assumes "tracked p" "new \<notin> set (trackerUUIDs p)"
  shows "used_keys (after_send new (last (trackerUUIDs p)) S p) =
    insert (last (trackerUUIDs p), sequence p) (used_keys p)"
proof -
  have "trackerUUIDs p \<noteq> []" "0 \<le> sequence p" "sequence p \<le> 65535" using assms by (simp_all add: tracked_def)
  moreover from this have "last (trackerUUIDs p) \<in> set (trackerUUIDs p)" by simp
  ultimately show ?thesis using assms(2)
    by (auto simp: used_keys_def after_send_def Let_def split: if_splits)
qed

lemma tracked_send:
  assumes p: "tracked p" and aw: "awaitingSequences p (last (trackerUUIDs p)) = Some S"
    and new: "new \<notin> set (trackerUUIDs p)" and small: "PacketsSent p < 2 ^ 63 - 1"
  defines "q \<equiv> after_send new (last (trackerUUIDs p)) S p"
  shows "tracked q \<and> (last (trackerUUIDs p), sequence p) \<notin> used_keys p \<and>
    PacketsSent q = PacketsSent p + 1 \<and> PacketsRecv q = PacketsRecv p"
proof -
  let ?k = "(last (trackerUUIDs p), sequence p)"
  have fresh: "?k \<notin> used_keys p" by (simp add: used_keys_def)
  then have "?k \<notin> pending_keys p" using p by (auto simp: tracked_def)
  moreover have "i64 (PacketsSent p + 1) = PacketsSent p + 1"
    using p small by (intro i64_succ) (auto simp: tracked_def is_i64_def)
  then have counts: "PacketsSent q = PacketsSent p + 1" "PacketsRecv q = PacketsRecv p"
    by (simp_all add: q_def after_send_def Let_def)
  moreover have "trackerUUIDs q \<noteq> [] \<and> distinct (trackerUUIDs q) \<and> dom (awaitingSequences q) = set (trackerUUIDs q) \<and>
      0 \<le> sequence q \<and> sequence q \<le> 65535"
    using p new by (auto simp: q_def after_send_def tracked_def Let_def)
  ultimately have "tracked q"
    using p small pending_after_send [OF p aw new] used_after_send [OF p new, of S]
    by (auto simp: tracked_def q_def [symmetric])
  with fresh counts show ?thesis by simp
qed

interpretation tracker: inflight_spec "tracker_step env pc" tracked used_keys pending_keys PacketsSent PacketsRecv
  for env :: "'u env" and pc :: "'c packet_conn"
proof
  fix p q :: "'u pinger" and k
  assume p: "tracked p" and s: "tracker_step env pc (Push k) p q"
  then obtain now new c c' evs where s: "sendICMP env pc now new c p = Some (Inr (None, c', q, evs))"
    "new \<notin> set (trackerUUIDs p)" "k = (last (trackerUUIDs p), sequence p)" "PacketsSent p < 2 ^ 63 - 1"
    by auto
  with sendICMP_Inr [OF s(1)] p obtain S where S: "awaitingSequences p (last (trackerUUIDs p)) = Some S"
    and q: "q = after_send new (last (trackerUUIDs p)) S p"
    by (auto simp: request_def getCurrentTrackerUUID_last record_sent_eq tracked_def split: option.splits if_splits)
  show "tracked q \<and> k \<notin> used_keys p \<and> used_keys q = insert k (used_keys p) \<and>
      pending_keys q = insert k (pending_keys p) \<and> PacketsSent q = PacketsSent p + 1 \<and> PacketsRecv q = PacketsRecv p"
    using tracked_send [OF p S s(2,4)] pending_after_send [OF p S s(2)] used_after_send [OF p s(2), of S] s(3)
    by (simp add: q)
next
  fix p q :: "'u pinger" and k
  assume p: "tracked p" and s: "tracker_step env pc (Pull k) p q"
  then obtain now recv d err evs where r: "reply_to env p recv (fst k) (snd k) d"
    and q: "processPacket env now recv p = Inr (err, q, evs)" by auto
  have mem: "k \<in> pending_keys p \<longleftrightarrow> inflight p (fst k) (snd k)"
    by (cases k) (simp add: pending_keys_def)
  show "tracked q \<and> used_keys q = used_keys p \<and> pending_keys q = pending_keys p - {k} \<and> PacketsSent q = PacketsSent p \<and>
      PacketsRecv q = PacketsRecv p + (if k \<in> pending_keys p then 1 else 0)"
  proof (cases "inflight p (fst k) (snd k)")
    case True
    then obtain k' where "updateStatistics k' (delete_awaiting (fst k) (snd k) p) = Inr q"
      using processPacket_reply_Inr [OF r q] by (auto simp: Let_def)
    from tracked_answer [OF p True this] mem True show ?thesis by simp
  next
    case False
    then have dup: "q = p\<lparr>PacketsRecvDuplicates := i64 (PacketsRecvDuplicates p + 1)\<rparr>"
      using processPacket_reply_Inr [OF r q] by (auto simp: Let_def)
    then have "used_keys q = used_keys p" by (intro used_cong) simp_all
    moreover have "pending_keys q = pending_keys p" using dup by (intro pending_cong) simp
    ultimately show ?thesis using tracked_duplicate [OF p] False mem dup by simp
  qed
next
  fix p q :: "'u pinger"
  assume p: "tracked p" and s: "tracker_step env pc Idle p q"
  from s consider now recv err evs where "\<And>u n d. \<not> reply_to env p recv u n d" "processPacket env now recv p = Inr (err, q, evs)"
    | now new c e c' evs where "sendICMP env pc now new c p = Some (Inr (Some e, c', q, evs))"
    by auto
  then have "q = p"
  proof cases
    case 1
    from processPacket_foreign [OF 1(1), of now] 1(2) show ?thesis by auto
  next
    case 2
    from sendICMP_Inr [OF 2] show ?thesis by simp
  qed
  with p show "tracked q \<and> used_keys q = used_keys p \<and> pending_keys q = pending_keys p \<and>
      PacketsSent q = PacketsSent p \<and> PacketsRecv q = PacketsRecv p" by simp
qed

section \<open>The way of a request to its reply\<close>

lemma reply_to_cong:
  assumes "ipv4 q = ipv4 p" "protocol q = protocol p" "ident q = ident p" "set (trackerUUIDs p) \<subseteq> set (trackerUUIDs q)"
    "reply_to env p recv u n d"
  shows "reply_to env q recv u n d"
proof -
  have "parsed env q recv = parsed env p recv" using assms(1) by (simp add: parsed_def)
  moreover have "matchID os q i = matchID os p i" for os i
    using assms by (simp add: matchID_def linux_matchID_def windows_matchID_def other_matchID_def split: goos.split)
  ultimately show ?thesis using assms(4,5) by (auto simp: reply_to_def)
qed

text \<open>A reply as it arrives: with or without an IPv4 header, perhaps with bytes behind it.\<close>

definition valid_header :: "bool \<Rightarrow> byte list \<Rightarrow> bool" where
  "valid_header v4 h \<longleftrightarrow> h = [] \<or> (v4 \<and> 20 \<le> length h \<and> drop_bit 4 (h ! 0) = 4 \<and> ihl h = length h)"

lemma strip_valid_header:
  assumes "valid_header True h" "m \<noteq> []" "drop_bit 4 (hd m) \<noteq> (4 :: byte)"
  shows "\<exists>pad. snd (stripIPv4Header n (h @ m)) = m @ pad"
proof (cases "h = []")
  case True
  with assms show ?thesis using stripIPv4Header_no_header [of m n] by (simp add: hd_conv_nth)
next
  case False
  with assms have h: "20 \<le> length h" "drop_bit 4 ((h @ m) ! 0) = 4" "ihl (h @ m) = length h"
    by (auto simp: valid_header_def ihl_def nth_append)
  show ?thesis using stripIPv4Header_header [OF h(2,3,1) refl, of n] by auto
qed

definition reply_type :: "'u pinger \<Rightarrow> icmp_type" where
  "reply_type p = (if ipv4 p then ipv4_ICMPTypeEchoReply else ipv6_ICMPTypeEchoReply)"

text \<open>The data of a request, echoed back, is a reply to the pinger under its current tracker.\<close>

lemma echoed_reply_to:
  assumes laws: "uuid_laws env" "icmp_laws env" and p: "tracked p" "0 \<le> ident p" "ident p \<le> 65535" "24 \<le> Size p" "Size p < 2 ^ 63"
    and enc: "uuid_Marshal env (last (trackerUUIDs p)) = Inr enc"
    and rb: "icmp_Marshal env \<lparr>msg_Type = reply_type p, msg_Code = 0,
      msg_Body = Echo (ident p) (sequence p) (send_payload p now enc)\<rparr> = Inr rb"
    and b: "bytes recv = h @ rb @ pad" "valid_header (ipv4 p) h"
  shows "\<exists>rest. reply_to env p recv (last (trackerUUIDs p)) (sequence p) (timeToBytes now @ enc @ rest)"
proof -
  let ?d = "send_payload p now enc"
  have enc': "length enc = 16" "uuid_Unmarshal env enc = Inr (last (trackerUUIDs p))"
    using uuid_lawsE [OF laws(1), of "last (trackerUUIDs p)"] enc by auto
  have "0 \<le> sequence p" "sequence p \<le> 65535" "last (trackerUUIDs p) \<in> set (trackerUUIDs p)"
    using p by (auto simp: tracked_def)
  moreover have "reply_type p \<in> echo_types" by (simp add: reply_type_def echo_types_def)
  ultimately obtain hd0 where hd0: "length hd0 = 8" "hd hd0 = word_of_int (type_code (reply_type p))" "rb = hd0 @ ?d"
    "\<And>pad. icmp_Parse env (type_proto (reply_type p)) (hd0 @ ?d @ pad) =
       Inr \<lparr>msg_Type = reply_type p, msg_Code = 0, msg_Body = Echo (ident p) (sequence p) (?d @ pad)\<rparr>"
    using icmp_lawsE [OF laws(2) _ p(2,3), of "reply_type p" "sequence p" ?d] rb by (metis sum.inject(2))
  have ne: "rb @ pad \<noteq> []" "hd (rb @ pad) = hd hd0" using hd0 by (cases hd0; simp)+
  have "\<exists>pad'. parsed env p recv = Inr \<lparr>msg_Type = reply_type p, msg_Code = 0, msg_Body = Echo (ident p) (sequence p) (?d @ pad')\<rparr>"
  proof (cases "ipv4 p")
    case True
    then have "drop_bit 4 (hd (rb @ pad)) \<noteq> (4 :: byte)"
      using ne hd0(2) by (simp add: reply_type_def ipv4_ICMPTypeEchoReply_def)
    from strip_valid_header [OF _ ne(1) this, of h "nbytes recv"] True b
    obtain pad' where "snd (stripIPv4Header (nbytes recv) (bytes recv)) = hd0 @ ?d @ (pad @ pad')"
      by (auto simp: hd0(3))
    with hd0(4) [of "pad @ pad'"] True show ?thesis
      by (auto simp: parsed_def reply_type_def ipv4_ICMPTypeEchoReply_def)
  next
    case False
    with b hd0(3) have "bytes recv = hd0 @ ?d @ pad" by (simp add: valid_header_def)
    with hd0(4) [of pad] False show ?thesis
      by (auto simp: parsed_def reply_type_def ipv6_ICMPTypeEchoReply_def)
  qed
  then obtain pad' where "parsed env p recv = Inr \<lparr>msg_Type = reply_type p, msg_Code = 0,
      msg_Body = Echo (ident p) (sequence p) (?d @ pad')\<rparr>" ..
  moreover obtain ones where "?d = timeToBytes now @ enc @ ones"
    using send_payload_split [OF enc'(1), of p now] p by auto
  moreover have "matchID (GOOS env) p (ident p)" "is_reply_type (reply_type p)"
    by (simp_all add: matchID_def linux_matchID_def windows_matchID_def other_matchID_def is_reply_type_def
        reply_type_def split: goos.split)
  ultimately show ?thesis
    using enc' p(1) by (intro exI [of _ "ones @ pad'"]) (auto simp: reply_to_def tracked_def)
qed

lemma updateStatistics_total:
  assumes "tracked p" "PacketsRecv q = PacketsRecv p" "inflight p u n"
  shows "\<exists>r. updateStatistics k q = Inr r"
proof -
  have "(u, n) \<in> pending_keys p" using assms(3) by (simp add: pending_keys_def)
  then have "0 < card (pending_keys p)" using assms(1) by (auto simp: tracked_def card_gt_0_iff)
  then have "is_i64 (PacketsRecv p)" "0 \<le> PacketsRecv p" "PacketsRecv p < 2 ^ 63 - 1"
    using assms(1) by (auto simp: tracked_def is_i64_def)
  then have "i64 (PacketsRecv q + 1) \<noteq> 0" using i64_succ [of "PacketsRecv p"] assms(2) by simp
  from updateStatistics_fields [OF this, of k] show ?thesis by blast
qed

text \<open>On a tracked pinger a packet with an address it can name is always processed without a panic.\<close>

lemma processPacket_tracked:
  assumes "tracked p" "address_known p (src_addr recv)"
  shows "\<exists>r. processPacket env now recv p = Inr r"
proof (cases "\<exists>u n d. reply_to env p recv u n d")
  case True
  then obtain u n d where r: "reply_to env p recv u n d" by blast
  obtain v evs where v: "real_ip p (src_addr recv) = Inr (v, evs)" using real_ip_total [OF assms(2)] by blast
  show ?thesis
  proof (rule processPacket_reply [OF r v, of now], goal_cases)
    case (1 t)
    show ?case
    proof (cases "inflight p u n")
      case True
      from updateStatistics_total [OF assms(1) _ this, of "delete_awaiting u n p" "in_packet env p recv v (time_Sub now t) n"]
      show ?thesis using 1(2) True by (auto simp: Let_def)
    qed (use 1(2) in \<open>simp add: Let_def\<close>)
  qed
next
  case False
  with processPacket_foreign [of env p recv now] assms(2) show ?thesis by blast
qed

lemma processPacket_tracked_cases:
  assumes "tracked p"
  obtains r where "processPacket env now recv p = Inr r"
  | "processPacket env now recv p = Inl NilDereference" "\<not> address_known p (src_addr recv)"
proof (rule real_ip_cases [of p "src_addr recv"])
  assume "real_ip p (src_addr recv) = Inl NilDereference" "\<not> address_known p (src_addr recv)"
  moreover from this have "(\<exists>r. processPacket env now recv p = Inr r) \<or> processPacket env now recv p = Inl NilDereference"
    by (auto simp: address_known_def processPacket_parsed split: net_addr.splits sum.split)
  ultimately show thesis using that by blast
next
  fix v evs assume v: "real_ip p (src_addr recv) = Inr (v, evs)"
  then have "address_known p (src_addr recv)"
    by (auto simp: real_ip_def address_known_def split: net_addr.splits option.splits)
  with processPacket_tracked [OF assms, of recv env now] that show thesis by blast
qed

text \<open>What \<^verbatim>\<open>processPacket\<close> keeps of the pinger's configuration, whatever it receives.\<close>

lemma processPacket_config:
  assumes "processPacket env now recv p = Inr (err, q, evs)"
  shows "ipv4 q = ipv4 p \<and> ident q = ident p \<and> protocol q = protocol p \<and> p_logger q = p_logger p"
proof (cases "\<exists>u n d. reply_to env p recv u n d")
  case True
  then obtain u n d where "reply_to env p recv u n d" by blast
  from processPacket_reply_Inr [OF this assms] show ?thesis
    by (auto simp: Let_def delete_awaiting_keeps updateStatistics_keeps split: if_splits)
next
  case False
  then show ?thesis using processPacket_foreign [of env p recv now] assms by auto
qed

text \<open>The first answer to a request just sent.\<close>

lemma echo_answered:
  assumes laws: "uuid_laws env" "icmp_laws env"
    and p: "tracked p" "PacketsSent p < 2 ^ 63 - 1" "0 \<le> ident p" "ident p \<le> 65535" "24 \<le> Size p" "Size p < 2 ^ 63"
    and S: "awaitingSequences p (last (trackerUUIDs p)) = Some S" and send: "new \<notin> set (trackerUUIDs p)" "is_i64 now"
    and enc: "uuid_Marshal env (last (trackerUUIDs p)) = Inr enc"
    and rb: "icmp_Marshal env \<lparr>msg_Type = reply_type p, msg_Code = 0,
      msg_Body = Echo (ident p) (sequence p) (send_payload p now enc)\<rparr> = Inr rb"
    and recv: "bytes recv = h @ rb @ pad" "valid_header (ipv4 p) h" "address_known p (src_addr recv)"
  shows "\<exists>rest v evs q1. reply_to env (after_send new (last (trackerUUIDs p)) S p) recv (last (trackerUUIDs p)) (sequence p)
        (timeToBytes now @ enc @ rest) \<and>
      real_ip (after_send new (last (trackerUUIDs p)) S p) (src_addr recv) = Inr (v, evs) \<and>
      updateStatistics (in_packet env (after_send new (last (trackerUUIDs p)) S p) recv v (time_Sub t1 now) (sequence p))
        (delete_awaiting (last (trackerUUIDs p)) (sequence p) (after_send new (last (trackerUUIDs p)) S p)) = Inr q1 \<and>
      processPacket env t1 recv (after_send new (last (trackerUUIDs p)) S p) = Inr (None, q1, evs @
        (if OnRecv (after_send new (last (trackerUUIDs p)) S p)
         then [CallOnRecv (in_packet env (after_send new (last (trackerUUIDs p)) S p) recv v (time_Sub t1 now) (sequence p))]
         else [])) \<and>
      inflight (after_send new (last (trackerUUIDs p)) S p) (last (trackerUUIDs p)) (sequence p)"
proof -
  let ?u = "last (trackerUUIDs p)" and ?n = "sequence p"
  define q where "q = after_send new ?u S p"
  note ts = tracked_send [OF p(1) S send(1) p(2), folded q_def]
  have fl: "inflight q ?u ?n"
    using pending_after_send [OF p(1) S send(1)] by (auto simp: pending_keys_def q_def)
  obtain rest where "reply_to env p recv ?u ?n (timeToBytes now @ enc @ rest)"
    using echoed_reply_to [OF laws p(1,3,4,5,6) enc rb recv(1,2)] by blast
  then have r: "reply_to env q recv ?u ?n (timeToBytes now @ enc @ rest)"
    by (rule reply_to_cong [rotated 4]) (auto simp: q_def after_send_def Let_def)
  have "address_known q (src_addr recv)"
    using recv(3) by (simp add: q_def after_send_def Let_def address_known_def split: net_addr.splits)
  then obtain v evs where v: "real_ip q (src_addr recv) = Inr (v, evs)" using real_ip_total by blast
  have t: "go_bind (slice 0 8 (timeToBytes now @ enc @ rest)) bytesToTime = Inr now"
    using stamp.dec_head [of now "enc @ rest"] send(2) by (simp add: i64_id)
  let ?k = "in_packet env q recv v (time_Sub t1 now) ?n"
  obtain q1 where q1: "updateStatistics ?k (delete_awaiting ?u ?n q) = Inr q1"
    using updateStatistics_total [OF _ _ fl, of "delete_awaiting ?u ?n q"] ts by auto
  have "processPacket env t1 recv q = Inr (None, q1, evs @ (if OnRecv q then [CallOnRecv ?k] else []))"
    by (rule processPacket_reply [OF r v, of t1]) (use t fl q1 updateStatistics_frame [OF q1] in \<open>simp add: Let_def\<close>)
  with r v q1 fl show ?thesis unfolding q_def by blast
qed

section \<open>Properties\<close>

text \<open>
  C1. The books of a run balance, whatever is received and however often sequence numbers start
  over: after any sequence of sends and received datagrams on a configured pinger, no key (tracker
  and sequence number) has been sent twice; \<^verbatim>\<open>PacketsSent\<close> is the number of sends;
  \<^verbatim>\<open>PacketsRecv\<close> is the number of sent keys that were answered afterwards, each counted once
  however many copies arrive; and the difference is the number of keys in flight.
\<close>

theorem run_accounting:
  fixes p q :: "'u pinger" and pc :: "'c packet_conn"
  assumes "configured u p" "steps (tracker_step env pc) p es q"
  shows "distinct (pushed es) \<and> PacketsSent q = int (length (pushed es)) \<and>
    PacketsRecv q = int (card (answered es)) \<and> answered es \<subseteq> set (pushed es) \<and>
    PacketsSent q = PacketsRecv q + int (card (pending_keys q)) \<and> tracked q"
proof -
  note c = tracked_configured [OF assms(1)]
  have "PacketsSent p = 0" "PacketsRecv p = 0" using assms(1) by (simp_all add: configured_def)
  with tracker.accounting [OF assms(2) c] tracker.balance [OF assms(2) c] answered_pushed [of es]
  show ?thesis by auto
qed

text \<open>
  C3. From request to reply and back: if a send succeeds and the data it put on the wire comes
  back in an echo reply, behind an IPv4 header or not and with bytes added at its end or not, the
  reply is counted once with the round-trip time between the two clock readings and the sequence
  number of the request, and a second copy only raises \<^verbatim>\<open>PacketsRecvDuplicates\<close>.
\<close>

theorem echo_round_trip:
  assumes laws: "uuid_laws env" "icmp_laws env"
    and p: "tracked p" "PacketsSent p < 2 ^ 63 - 1" "0 \<le> ident p" "ident p \<le> 65535" "24 \<le> Size p" "Size p < 2 ^ 63"
    and send: "sendICMP env pc now new c p = Some (Inr (None, c', q, evs))" "new \<notin> set (trackerUUIDs p)" "is_i64 now"
    and enc: "uuid_Marshal env (last (trackerUUIDs p)) = Inr enc"
    and rb: "icmp_Marshal env \<lparr>msg_Type = reply_type p, msg_Code = 0,
      msg_Body = Echo (ident p) (sequence p) (send_payload p now enc)\<rparr> = Inr rb"
    and recv: "bytes recv = h @ rb @ pad" "valid_header (ipv4 p) h" "address_known p (src_addr recv)"
  shows "\<exists>k q1 e1. processPacket env t1 recv q = Inr (None, q1, e1) \<and>
    callbacks e1 = (if OnRecv q then [CallOnRecv k] else []) \<and>
    Rtt k = time_Sub t1 now \<and> Seq k = sequence p \<and> PacketsRecv q1 = PacketsRecv p + 1 \<and>
    (\<exists>q2 e2. processPacket env t2 recv q1 = Inr (None, q2, e2) \<and>
      q2 = q1\<lparr>PacketsRecvDuplicates := i64 (PacketsRecvDuplicates q1 + 1)\<rparr>)"
proof -
  let ?u = "last (trackerUUIDs p)" and ?n = "sequence p"
  obtain S where S: "awaitingSequences p ?u = Some S" and q: "q = after_send new ?u S p"
    using sendICMP_Inr [OF send(1)] p(1)
    by (auto simp: request_def getCurrentTrackerUUID_last record_sent_eq tracked_def split: option.splits if_splits)
  note ts = tracked_send [OF p(1) S send(2) p(2), folded q]
  obtain rest v evs' q1 where r: "reply_to env q recv ?u ?n (timeToBytes now @ enc @ rest)"
    and v: "real_ip q (src_addr recv) = Inr (v, evs')"
    and q1: "updateStatistics (in_packet env q recv v (time_Sub t1 now) ?n) (delete_awaiting ?u ?n q) = Inr q1"
    and P1: "processPacket env t1 recv q = Inr (None, q1, evs' @
      (if OnRecv q then [CallOnRecv (in_packet env q recv v (time_Sub t1 now) ?n)] else []))" and fl: "inflight q ?u ?n"
    using echo_answered [OF laws p S send(2,3) enc rb recv, of t1] unfolding q [symmetric] by blast
  let ?k = "in_packet env q recv v (time_Sub t1 now) ?n"
  note ta = tracked_answer [OF _ fl q1]
  have nfl: "\<not> inflight q1 ?u ?n" using ta ts by (auto simp: pending_keys_def)
  have q1f: "p_logger q1 = p_logger q" "ipaddr q1 = ipaddr q" "ipv4 q1 = ipv4 q" "protocol q1 = protocol q" "ident q1 = ident q"
    "trackerUUIDs q1 = trackerUUIDs q"
    using updateStatistics_keeps [OF q1] by (simp_all add: delete_awaiting_keeps)
  have r1: "reply_to env q1 recv ?u ?n (timeToBytes now @ enc @ rest)"
    by (rule reply_to_cong [OF q1f(3,4,5) _ r]) (simp add: q1f)
  have v1: "real_ip q1 (src_addr recv) = Inr (v, evs')"
    using v q1f by (cases "src_addr recv"; cases "p_logger q") (simp_all add: real_ip_def)
  have dup: "\<exists>q2 e2. processPacket env t2 recv q1 = Inr (None, q2, e2) \<and>
      q2 = q1\<lparr>PacketsRecvDuplicates := i64 (PacketsRecvDuplicates q1 + 1)\<rparr>"
    by (rule processPacket_reply [OF r1 v1, of t2]) (use nfl in \<open>simp add: Let_def\<close>)
  show ?thesis
    by (intro exI [of _ ?k] exI [of _ q1] exI [of _ "evs' @ (if OnRecv q then [CallOnRecv ?k] else [])"] conjI P1 dup)
      (use ta ts real_ip_callbacks [OF v] in \<open>simp_all add: callbacks_def in_packet_def\<close>)
qed

text \<open>
  C28. A datagram that is not a reply to this pinger (it does not parse, is no echo reply, has
  another identifier where that can be told, is too short, or carries a tracker the pinger never
  used) leaves the pinger exactly as it was and calls no callback.
\<close>

theorem foreign_packet_ignored:
  assumes "\<And>u n d. \<not> reply_to env p recv u n d" "processPacket env now recv p = Inr (err, q, evs)"
  shows "q = p \<and> callbacks evs = []"
  using processPacket_foreign [OF assms(1), of now] assms(2) by auto

text \<open>
  C27. Processing never panics during a run: on a tracked pinger no slice, division or map
  access of \<^verbatim>\<open>processPacket\<close> fails, unless the source address is of an unknown type and there
  is no logger to say so.
\<close>

theorem processPacket_no_panic:
  assumes "configured u p" "steps (tracker_step env pc) p es q"
  shows "(\<exists>r. processPacket env now recv q = Inr r) \<or>
    (processPacket env now recv q = Inl NilDereference \<and> p_logger q = None \<and> (\<exists>k. src_addr recv = AddrOther k))"
proof -
  have "tracked q" using tracker.accounting [OF assms(2) tracked_configured [OF assms(1)]] by simp
  then show ?thesis
  proof (rule processPacket_tracked_cases [of q env now recv])
    fix r assume "processPacket env now recv q = Inr r"
    then show ?thesis by blast
  qed (auto simp: address_known_def split: net_addr.splits)
qed

section \<open>Witnesses\<close>

text \<open>A pinger on Linux without privileges sends its first request, and its echo comes back.\<close>

lemma sample_configured: "configured 0 sample_pinger"
  by (simp add: configured_def sample_pinger_def New_def ip_of_def isIPv4_def To4_def)

lemma sample_send:
  "\<exists>c q evs. sendICMP (sample_env Linux) (sample_conn (\<lambda>k. None)) 5 1 0 sample_pinger = Some (Inr (None, c, q, evs))"
proof -
  have "final_attempt (sample_env Linux) (sample_conn (\<lambda>k. None)) sample_request sample_dst 0"
    by (simp add: final_attempt_def sample_attempt)
  moreover have "\<exists>q. record_sent 1 0 sample_pinger = Inr q"
    by (simp add: record_sent_def sample_pinger_def New_def Let_def)
  ultimately show ?thesis
    using send_loop_final [of "sample_env Linux" "sample_conn (\<lambda>k. None)" sample_request sample_dst 0 1 0 sample_pinger "[]"]
    unfolding sendICMP_request [OF sample_request] by (auto simp: sample_attempt)
qed

theorem run_accounting_witness:
  "\<exists>q. steps (tracker_step (sample_env Linux) (sample_conn (\<lambda>k. None))) sample_pinger [Push (0, 0)] q \<and> PacketsSent q = 1"
proof -
  obtain c q evs where s: "sendICMP (sample_env Linux) (sample_conn (\<lambda>k. None)) 5 1 0 sample_pinger = Some (Inr (None, c, q, evs))"
    using sample_send by blast
  then have "tracker_step (sample_env Linux) (sample_conn (\<lambda>k. None)) (Push (0, 0)) sample_pinger q"
    unfolding tracker_step.simps by (intro exI conjI, assumption) (simp_all add: sample_pinger_def New_def)
  from steps_one [where step = "tracker_step (sample_env Linux) (sample_conn (\<lambda>k. None))", OF this]
  have st: "steps (tracker_step (sample_env Linux) (sample_conn (\<lambda>k. None))) sample_pinger [Push (0, 0)] q" .
  with run_accounting [OF sample_configured st] show ?thesis by (auto simp: pushed_def)
qed

definition sample_reply :: raw_packet where
  "sample_reply = \<lparr>bytes = [0, 0, 0, 0, 0, 7, 0, 0] @ timeToBytes 5 @ replicate 16 0, nbytes = 32, ttl = 60,
     src_addr = AddrUDP [10, 0, 0, 1] ''''\<rparr>"

theorem echo_round_trip_witness:
  "\<exists>c q evs q1 e1 q2 e2. sendICMP (sample_env Linux) (sample_conn (\<lambda>k. None)) 5 1 0 sample_pinger = Some (Inr (None, c, q, evs)) \<and>
     processPacket (sample_env Linux) 12 sample_reply q = Inr (None, q1, e1) \<and> PacketsRecv q1 = 1 \<and>
     processPacket (sample_env Linux) 13 sample_reply q1 = Inr (None, q2, e2) \<and> PacketsRecv q2 = 1"
proof -
  obtain c q evs where s: "sendICMP (sample_env Linux) (sample_conn (\<lambda>k. None)) 5 1 0 sample_pinger = Some (Inr (None, c, q, evs))"
    using sample_send by blast
  have p: "tracked sample_pinger" "PacketsSent sample_pinger < 2 ^ 63 - 1" "0 \<le> ident sample_pinger" "ident sample_pinger \<le> 65535"
    "24 \<le> Size sample_pinger" "Size sample_pinger < 2 ^ 63"
    using tracked_configured [OF sample_configured] by (simp_all add: sample_pinger_def New_def)
  have rb: "icmp_Marshal (sample_env Linux) \<lparr>msg_Type = reply_type sample_pinger, msg_Code = 0,
      msg_Body = Echo (ident sample_pinger) (sequence sample_pinger) (send_payload sample_pinger 5 (replicate 16 0))\<rparr>
    = Inr ([0, 0, 0, 0, 0, 7, 0, 0] @ timeToBytes 5 @ replicate 16 0)"
    by (simp add: sample_env_def sample_Marshal_def sample_pinger_def New_def reply_type_def ipv4_ICMPTypeEchoReply_def
        send_payload_def Let_def i64_def)
  have "uuid_Marshal (sample_env Linux) (last (trackerUUIDs sample_pinger)) = Inr (replicate 16 0)"
    by (simp add: sample_env_def sample_pinger_def New_def)
  note rt = echo_round_trip [OF uuid_laws_sample icmp_laws_sample p s _ _ this rb,
    where h = "[]" and pad = "[]" and ?t1.0 = 12 and ?t2.0 = 13]
  have "bytes sample_reply = [] @ ([0, 0, 0, 0, 0, 7, 0, 0] @ timeToBytes 5 @ replicate 16 0) @ []"
    "valid_header (ipv4 sample_pinger) []" "address_known sample_pinger (src_addr sample_reply)"
    "1 \<notin> set (trackerUUIDs sample_pinger)" "is_i64 5"
    by (simp_all add: sample_reply_def valid_header_def address_known_def is_i64_def sample_pinger_def New_def)
  from rt [OF this(4,5,1,2,3)] obtain q1 e1 q2 e2 where
    "processPacket (sample_env Linux) 12 sample_reply q = Inr (None, q1, e1)" "PacketsRecv q1 = PacketsRecv sample_pinger + 1"
    "processPacket (sample_env Linux) 13 sample_reply q1 = Inr (None, q2, e2)"
    "q2 = q1\<lparr>PacketsRecvDuplicates := i64 (PacketsRecvDuplicates q1 + 1)\<rparr>" by blast
  moreover have "PacketsRecv sample_pinger = 0" by (simp add: sample_pinger_def New_def)
  ultimately show ?thesis using s by fastforce
qed

theorem foreign_packet_ignored_witness:
  "\<exists>err q evs. processPacket (sample_env Darwin) 5 \<lparr>bytes = [3, 0], nbytes = 2, ttl = 1, src_addr = AddrOther 0\<rparr> sample_pinger
     = Inr (err, q, evs) \<and> q = sample_pinger"
proof -
  let ?r = "\<lparr>bytes = [3, 0], nbytes = 2, ttl = 1, src_addr = AddrOther 0\<rparr>"
  have f: "parsed (sample_env Darwin) sample_pinger ?r = Inl (ExternalError 0)"
    by (simp add: parsed_def sample_env_def sample_Parse_def stripIPv4Header_def)
  then obtain err q evs where "processPacket (sample_env Darwin) 5 ?r sample_pinger = Inr (err, q, evs)"
    by (simp add: processPacket_parsed)
  with foreign_packet_ignored [of "sample_env Darwin" sample_pinger ?r, OF _ this] f show ?thesis
    by (auto simp: reply_to_def)
qed

theorem processPacket_no_panic_witness:
  "\<exists>r. processPacket (sample_env Linux) 5 sample_reply sample_pinger = Inr r"
  using processPacket_no_panic [OF sample_configured steps_refl, of "sample_env Linux" 5 sample_reply] sample_logger
  by auto

end
