(* ===== verification/Filter_Receive.thy ===== *)
theory Filter_Receive
  imports Bpf_Filter Pinger_Tracker
begin

text \<open>
  The identifier filter a privileged pinger installs on Linux (\<^verbatim>\<open>listen\<close> in \<^verbatim>\<open>ping.go\<close>,
  \<^verbatim>\<open>InstallICMPIDFilter\<close> in \<^verbatim>\<open>utils_linux.go\<close>) beside \<^verbatim>\<open>processPacket\<close>: what the kernel drops, the pinger
  would have ignored.
\<close>

section \<open>The layout of an echo message\<close>

text \<open>
  The documented wire format behind \<^verbatim>\<open>icmp.ParseMessage\<close>: an echo message has eight bytes at least, its
  type in the first of them and its identifier, in network order, in the fifth and sixth.
\<close>

definition icmp_layout :: "'u env \<Rightarrow> bool" where
  "icmp_layout env \<longleftrightarrow>
     (\<forall>proto b m i n d. icmp_Parse env proto b = Inr m \<and> msg_Body m = Echo i n d \<longrightarrow>
        8 \<le> length b \<and> i = 256 * uint (b ! 4) + uint (b ! 5) \<and>
        (proto = protocolICMP \<longrightarrow> msg_Type m = ICMPv4 (uint (b ! 0))) \<and>
        (proto = protocolIPv6ICMP \<longrightarrow> msg_Type m = ICMPv6 (uint (b ! 0))))"

lemma icmp_layoutD:
  assumes "icmp_layout env" "icmp_Parse env proto b = Inr m" "msg_Body m = Echo i n d"
  shows "i = 256 * uint (b ! 4) + uint (b ! 5)"
    "proto = protocolICMP \<Longrightarrow> msg_Type m = ICMPv4 (uint (b ! 0))"
    "proto = protocolIPv6ICMP \<Longrightarrow> msg_Type m = ICMPv6 (uint (b ! 0))"
  using assms unfolding icmp_layout_def by blast+

lemma icmp_layout_sample: "icmp_layout (sample_env os)"
  by (auto simp: icmp_layout_def sample_env_def sample_Parse_def protocolICMP_def protocolIPv6ICMP_def Let_def
      split: if_splits)

section \<open>What the kernel hands on\<close>

text \<open>The program \<^verbatim>\<open>listen\<close> has installed, by the family of the connection.\<close>

definition id_filter :: "'u pinger \<Rightarrow> bpf_instr list" where
  "id_filter p = (if ipv4 p then filter_v4 (ident p) else filter_v6 (ident p))"

lemma id_filter_installed:
  "InstallICMPIDFilter (if ipv4 p then icmpv4Conn_methods Linux xn else icmpV6Conn_methods Linux xn) c (ident p) =
     (case xn_Assemble xn (id_filter p) of
        Some err \<Rightarrow> (c, Some err)
      | None \<Rightarrow> on_sock c (xn_SetBPF xn (sock c) (id_filter p)))"
  by (simp add: id_filter_def icmpv4Conn_methods_def icmpV6Conn_methods_def linux_icmpv4Conn_InstallICMPIDFilter_def
      linux_icmpV6Conn_InstallICMPIDFilter_def split: option.split)

definition passes :: "bpf_vm \<Rightarrow> 'u pinger \<Rightarrow> byte list \<Rightarrow> bool" where
  "passes vm p d \<longleftrightarrow> vm (id_filter p) d 0 0 \<noteq> 0"

text \<open>
  The filter sees the datagram \<open>d\<close>: for IPv4 an IP header \<open>h\<close> and the ICMP message \<open>m\<close>, for IPv6 the message.
  A read gives the message at the front of the buffer, as \<^verbatim>\<open>ReadFrom\<close> of \<^verbatim>\<open>golang.org/x/net/ipv4\<close>
  documents, or leaves the IP header before it; the rest of the buffer is arbitrary. The
  message has a whole header of eight bytes; for IPv4 its type is none of 64 to 79, which are not
  assigned and would read as the first byte of an IP header.
\<close>

definition read_as :: "'u pinger \<Rightarrow> byte list \<Rightarrow> raw_packet \<Rightarrow> bool" where
  "read_as p d recv \<longleftrightarrow>
     (\<exists>h h' m pad. d = h @ m \<and> (h \<noteq> [] \<longleftrightarrow> ipv4 p) \<and> valid_header (ipv4 p) h \<and> h' \<in> {[], h} \<and>
        bytes recv = h' @ m @ pad \<and> nbytes recv = int (length (h' @ m)) \<and>
        8 \<le> length m \<and> (ipv4 p \<longrightarrow> drop_bit 4 (hd m) \<noteq> 4))"

text \<open>The two ways the code computes the length of an IP header agree.\<close>

lemma ihl_header_length: "ip_header_length b = ihl b"
proof -
  let ?x = "b ! 0 AND 0x0f"
  have "?x = take_bit 4 (b ! 0)" by (simp add: take_bit_eq_mask mask_eq_exp_minus_1)
  then have "unat ?x = take_bit 4 (unat (b ! 0))" by (simp add: unsigned_take_bit_eq)
  then have lt: "unat ?x < 16" using take_bit_nat_less_exp [of 4 "unat (b ! 0)"] by simp
  have "unat (push_bit 2 (ucast ?x :: 64 word)) = unat ?x * 4"
    using lt by (simp add: push_bit_eq_mult unat_word_ariths unsigned_ucast_eq take_bit_nat_eq_self)
  then show ?thesis by (simp add: ip_header_length_def ihl_def)
qed

text \<open>An identifier of two bytes is not changed by the filter's 32 bits.\<close>

lemma two_bytes_32:
  fixes x y :: byte
  assumes "256 * uint x + uint y = i"
  shows "i mod 2 ^ 32 = i"
  using assms uint_lt2p [of x] uint_lt2p [of y]
  by (intro mod_pos_pos_trivial) (simp_all flip: assms add: uint_ge_0)

text \<open>What \<^verbatim>\<open>processPacket\<close> parses is the message, with the rest of the buffer.\<close>

lemma parsed_read:
  assumes "read_as p d recv"
  obtains h m pad where "d = h @ m" "8 \<le> length m" "h \<noteq> [] \<longleftrightarrow> ipv4 p" "ip_header_length d = length h \<or> h = []"
    "parsed env p recv = icmp_Parse env (if ipv4 p then protocolICMP else protocolIPv6ICMP) (m @ pad)"
proof -
  obtain h h' m pad where d: "d = h @ m" "h \<noteq> [] \<longleftrightarrow> ipv4 p" "valid_header (ipv4 p) h" "h' \<in> {[], h}"
    "bytes recv = h' @ m @ pad" "8 \<le> length m" "ipv4 p \<longrightarrow> drop_bit 4 (hd m) \<noteq> 4"
    using assms by (auto simp: read_as_def)
  have len: "ip_header_length d = length h \<or> h = []"
    using d(1,3) by (auto simp: valid_header_def ihl_header_length ihl_def nth_append)
  show thesis
  proof (cases "ipv4 p")
    case True
    have "m \<noteq> []" using d(6) by auto
    then have "valid_header True h'" "m @ pad \<noteq> []" "drop_bit 4 (hd (m @ pad)) \<noteq> 4"
      using d(3,4,7) True by (auto simp: valid_header_def)
    from strip_valid_header [OF this, of "nbytes recv"] obtain q where
      "snd (stripIPv4Header (nbytes recv) (bytes recv)) = (m @ pad) @ q" using d(5) by auto
    then have "parsed env p recv = icmp_Parse env protocolICMP (m @ pad @ q)" using True by (simp add: parsed_def)
    with that [OF d(1,6,2) len] True show thesis by simp
  next
    case False
    with d(2,4,5) have "bytes recv = m @ pad" by auto
    with that [OF d(1,6,2) len] False show thesis by (simp add: parsed_def)
  qed
qed

text \<open>A reply \<^verbatim>\<open>processPacket\<close> would take has its bytes where the filter looks.\<close>

lemma reply_passes:
  assumes env: "icmp_layout env" "bpf_laws vm" and r: "read_as p d recv"
    and m: "parsed env p recv = Inr x" "is_reply_type (msg_Type x)" "msg_Body x = Echo (ident p) n b"
  shows "passes vm p d"
proof -
  obtain h m pad where d: "d = h @ m" "8 \<le> length m" "h \<noteq> [] \<longleftrightarrow> ipv4 p" "ip_header_length d = length h \<or> h = []"
    "icmp_Parse env (if ipv4 p then protocolICMP else protocolIPv6ICMP) (m @ pad) = Inr x"
    using parsed_read [OF r, of env] m(1) by metis
  have at: "(m @ pad) ! k = d ! (length h + k)" if "k < 8" for k using d(1,2) that by (simp add: nth_append)
  have "256 * uint (d ! (length h + 4)) + uint (d ! (length h + 5)) = ident p"
    using icmp_layoutD(1) [OF env(1) d(5) m(3)] at [of 4] at [of 5] by simp
  moreover note two_bytes_32 [OF this]
  moreover have "uint (d ! length h) = (if ipv4 p then 0 else 129)"
    using icmp_layoutD(2,3) [OF env(1) d(5) m(3)] m(2) at [of 0]
    by (auto simp: is_reply_type_def ipv4_ICMPTypeEchoReply_def ipv6_ICMPTypeEchoReply_def split: if_splits)
  then have "d ! length h = (if ipv4 p then 0 else 129)" by (simp add: word_uint_eq_iff split: if_splits)
  ultimately have a: "reply_at (length h) (if ipv4 p then 0 else 129) (ident p) d" using d(1,2) by (simp add: reply_at_def)
  show ?thesis
  proof (cases "ipv4 p")
    case True
    then have "d \<noteq> []" "ip_header_length d = length h" using d(1,3,4) by auto
    with a True show ?thesis using filter_v4_run [OF env(2)] by (simp add: passes_def id_filter_def)
  next
    case False
    with d(3) a show ?thesis using filter_v6_run [OF env(2)] by (simp add: passes_def id_filter_def)
  qed
qed

lemma rejected_foreign:
  assumes env: "icmp_layout env" "bpf_laws vm" "GOOS env = Linux"
    and p: "protocol p = ''icmp''" "read_as p d recv" "\<not> passes vm p d"
  shows "\<not> reply_to env p recv u n b"
proof
  assume "reply_to env p recv u n b"
  then obtain m i where m: "parsed env p recv = Inr m" "is_reply_type (msg_Type m)" "msg_Body m = Echo i n b"
    "matchID (GOOS env) p i" by (auto simp: reply_to_def)
  have "i = ident p" using m(4) env(3) p(1) by (simp add: matchID_def linux_matchID_def)
  with m reply_passes [OF env(1,2) p(2) m(1,2)] p(3) show False by blast
qed

text \<open>The filter and the reads depend on two fields of the pinger.\<close>

lemma filter_config:
  "ipv4 q = ipv4 p \<Longrightarrow> ident q = ident p \<Longrightarrow> passes vm q = passes vm p" "ipv4 q = ipv4 p \<Longrightarrow> read_as q = read_as p"
  by (simp_all add: passes_def id_filter_def read_as_def fun_eq_iff)

section \<open>A stream of datagrams\<close>

text \<open>
  The looper's part of \<^verbatim>\<open>runLoop\<close>: one packet after another, each at the time it is processed, an
  error only logged; the pinger and the callbacks that come out.
\<close>

primrec process_all :: "'u env \<Rightarrow> (time \<times> raw_packet) list \<Rightarrow> 'u pinger \<Rightarrow> ('u pinger \<times> event list) go" where
  "process_all env [] p = Inr (p, [])"
| "process_all env (x # xs) p = go_bind (processPacket env (fst x) (snd x) p) (\<lambda>(err, q, evs).
     go_bind (process_all env xs q) (\<lambda>(r, evs'). Inr (r, callbacks evs @ evs')))"

lemma process_foreign:
  assumes "\<And>u n d. \<not> reply_to env p (snd x) u n d" "p_logger p \<noteq> None"
  shows "process_all env (x # xs) p = process_all env xs p"
proof -
  note address_known_logger [OF assms(2)]
  then obtain err evs where "processPacket env (fst x) (snd x) p = Inr (err, p, evs)" "callbacks evs = []"
    using processPacket_foreign [OF assms(1), of "fst x"] by blast
  then show ?thesis by (cases "process_all env xs p") auto
qed

section \<open>Property\<close>

text \<open>A datagram that has arrived: when it is processed, as the filter sees it, and as it is read.\<close>

type_synonym arrival = "time \<times> byte list \<times> raw_packet"

definition read_all :: "arrival list \<Rightarrow> (time \<times> raw_packet) list" where
  "read_all xs = map (\<lambda>(t, d, recv). (t, recv)) xs"

lemma read_all_simps [simp]: "read_all [] = []" "read_all ((t, d, recv) # xs) = (t, recv) # read_all xs"
  by (simp_all add: read_all_def)

text \<open>
  C22. The filter is transparent: on Linux, for a privileged pinger with a logger, processing only
  the reads of the datagrams the installed filter lets through ends in the same pinger and the same
  callbacks, in the same order, as processing all of them, whatever identifier was set; no reply is
  lost to the filter. The datagrams are those of \<open>read_as\<close>: a whole ICMP header, of an
  assigned type, the IPv4 header removed by the read or not.
\<close>

theorem filter_transparent:
  assumes "icmp_layout env" "bpf_laws vm" "GOOS env = Linux" "protocol p = ''icmp''" "p_logger p \<noteq> None"
    and "list_all (\<lambda>(t, d, recv). read_as p d recv) xs"
  shows "process_all env (read_all (filter (\<lambda>(t, d, recv). passes vm p d) xs)) p = process_all env (read_all xs) p"
  using assms(4-6)
proof (induction xs arbitrary: p)
  case (Cons x xs)
  obtain t d recv where x: "x = (t, d, recv)" by (cases x) auto
  have r: "read_as p d recv" "list_all (\<lambda>(t, d, recv). read_as p d recv) xs" using Cons.prems(3) x by simp_all
  note IH = Cons.IH [OF Cons.prems(1,2) r(2)]
  show ?case
  proof (cases "passes vm p d")
    case False
    have "process_all env (read_all (x # xs)) p = process_all env (read_all xs) p"
      unfolding x read_all_simps
      using rejected_foreign [OF assms(1-3) Cons.prems(1) r(1) False] Cons.prems(2) by (intro process_foreign) simp_all
    with False IH x show ?thesis by simp
  next
    case True
    have "process_all env (read_all (filter (\<lambda>(t, d, recv). passes vm p d) xs)) q = process_all env (read_all xs) q"
      if "processPacket env t recv p = Inr (err, q, evs)" for err q evs
      using processPacket_config [OF that] Cons.IH [of q] Cons.prems(1,2) r(2) filter_config [of q p] by simp
    with True x show ?thesis by (cases "processPacket env t recv p") auto
  qed
qed simp

section \<open>Witness\<close>

text \<open>
  Of a reply to another identifier and one to its own the pinger sees only the second; the IP
  header, which the filter needs, is not in what is read.
\<close>

definition raw_reply :: "byte \<Rightarrow> byte list" where
  "raw_reply i = [0, 0, 0, 0, 0, i, 0, 0] @ timeToBytes 5 @ replicate 16 0"

definition arrived :: "time \<Rightarrow> byte \<Rightarrow> arrival" where
  "arrived t i = (t, (0x45 # replicate 19 0) @ raw_reply i,
     \<lparr>bytes = raw_reply i @ [0, 0], nbytes = 32, ttl = 64, src_addr = AddrIP None\<rparr>)"

theorem filter_transparent_witness:
  "filter (\<lambda>(t, d, recv). passes bpf_run (sample_pinger\<lparr>protocol := ''icmp''\<rparr>) d) [arrived 9 8, arrived 12 7] = [arrived 12 7] \<and>
   process_all (sample_env Linux) (read_all [arrived 12 7]) (sample_pinger\<lparr>protocol := ''icmp''\<rparr>) =
   process_all (sample_env Linux) (read_all [arrived 9 8, arrived 12 7]) (sample_pinger\<lparr>protocol := ''icmp''\<rparr>)"
  (is "?f \<and> ?e")
proof -
  let ?p = "sample_pinger\<lparr>protocol := ''icmp''\<rparr>"
  have p: "ipv4 ?p" "ident ?p = 7" "p_logger ?p \<noteq> None" by (simp_all add: sample_pinger_def New_def)
  have h: "case arrived t i of (t, d, recv) \<Rightarrow> read_as ?p d recv" for t i
    unfolding arrived_def prod.case read_as_def
    by (intro exI [of _ "0x45 # replicate 19 0"] exI [of _ "[]"] exI [of _ "raw_reply i"] exI [of _ "[0, 0]"])
      (simp add: p valid_header_def ihl_def raw_reply_def timeToBytes_def)
  have "case arrived t i of (t, d, recv) \<Rightarrow> passes bpf_run ?p d \<longleftrightarrow> uint i = 7" for t i
    using p by (simp add: arrived_def passes_def id_filter_def filter_v4_run [OF bpf_laws_run] raw_reply_def
        timeToBytes_def reply_at_def ip_header_length_def nth_append)
  then have f: "?f" by (simp add: arrived_def)
  have "process_all (sample_env Linux) (read_all (filter (\<lambda>(t, d, recv). passes bpf_run ?p d) [arrived 9 8, arrived 12 7])) ?p =
    process_all (sample_env Linux) (read_all [arrived 9 8, arrived 12 7]) ?p"
    by (rule filter_transparent [OF icmp_layout_sample bpf_laws_run _ _ p(3)]) (use h in \<open>simp_all add: sample_env_def\<close>)
  with f show ?thesis by (simp only: simp_thms)
qed

end
