(* ===== verification/Backoff.thy ===== *)
theory Backoff
  imports Go_Prelude
begin

text \<open>
  \<^verbatim>\<open>expBackoff\<close> of \<^verbatim>\<open>ping.go\<close>: the read timeouts of the receiving goroutine. The generator
  \<^verbatim>\<open>rand.Int63n\<close> is the function a call draws from; \<open>Int63n_law\<close> is its documented range.
\<close>

record expBackoff =
  baseDelay :: duration
  maxExp :: int
  bo_c :: int

definition Int63n_law :: "(int \<Rightarrow> int) \<Rightarrow> bool" where
  "Int63n_law Int63n \<longleftrightarrow> (\<forall>n>0. 0 \<le> Int63n n \<and> Int63n n < n)"

text \<open>\<^verbatim>\<open>1 << c\<close> in an \<^verbatim>\<open>int64\<close>: a negative count panics, the bits above 63 are lost.\<close>

definition shl_one :: "int \<Rightarrow> int go" where
  "shl_one c = (if c < 0 then Inl InvalidArgument else Inr (i64 (2 ^ nat c)))"

text \<open>\<^verbatim>\<open>Int63n\<close> panics unless its argument is positive.\<close>

definition Get :: "(int \<Rightarrow> int) \<Rightarrow> expBackoff \<Rightarrow> (duration \<times> expBackoff) go" where
  "Get Int63n b =
     (let b = (if bo_c b < maxExp b then b\<lparr>bo_c := i64 (bo_c b + 1)\<rparr> else b)
      in go_bind (shl_one (bo_c b)) (\<lambda>n.
           if n \<le> 0 then Inl InvalidArgument
           else Inr (i64 (baseDelay b * Int63n n), b)))"

definition newExpBackoff :: "duration \<Rightarrow> int \<Rightarrow> expBackoff" where
  "newExpBackoff base m = \<lparr>baseDelay = base, maxExp = m, bo_c = 0\<rparr>"

text \<open>The delays of one call after another, each with its own draw.\<close>

primrec get_all :: "(int \<Rightarrow> int) list \<Rightarrow> expBackoff \<Rightarrow> (duration list \<times> expBackoff) go" where
  "get_all [] b = Inr ([], b)"
| "get_all (r # rs) b = go_bind (Get r b) (\<lambda>(d, b). go_bind (get_all rs b) (\<lambda>(ds, b). Inr (d # ds, b)))"

definition backoff_ok :: "expBackoff \<Rightarrow> bool" where
  "backoff_ok b \<longleftrightarrow> 0 \<le> baseDelay b \<and> 1 \<le> maxExp b \<and> maxExp b \<le> 62 \<and> 0 \<le> bo_c b \<and> bo_c b \<le> maxExp b \<and>
     baseDelay b * 2 ^ nat (maxExp b) < 2 ^ 63"

lemma Get_step:
  assumes "backoff_ok b" "Int63n_law r"
  shows "\<exists>k. 0 \<le> k \<and> k < 2 ^ nat (min (bo_c b + 1) (maxExp b)) \<and>
    Get r b = Inr (baseDelay b * k, b\<lparr>bo_c := min (bo_c b + 1) (maxExp b)\<rparr>)"
proof -
  let ?c = "min (bo_c b + 1) (maxExp b)"
  have c: "0 \<le> ?c" "?c \<le> maxExp b" "nat ?c \<le> 62" using assms(1) by (auto simp: backoff_ok_def)
  have "i64 (bo_c b + 1) = bo_c b + 1"
    using assms(1) by (intro i64_id) (simp add: backoff_ok_def is_i64_def)
  then have b: "(if bo_c b < maxExp b then b\<lparr>bo_c := i64 (bo_c b + 1)\<rparr> else b) = b\<lparr>bo_c := ?c\<rparr>"
    using assms(1) by (auto simp: backoff_ok_def min_def)
  have "(2 :: int) ^ nat ?c \<le> 2 ^ 62" using c(3) by (intro power_increasing) simp_all
  moreover have "(0 :: int) \<le> 2 ^ nat ?c" by simp
  moreover have "x \<le> 2 ^ 62 \<Longrightarrow> 0 \<le> x \<Longrightarrow> is_i64 x" for x :: int by (simp add: is_i64_def)
  ultimately have "is_i64 (2 ^ nat ?c)" by blast
  then have n: "i64 (2 ^ nat ?c) = 2 ^ nat ?c" by (rule i64_id)
  let ?k = "r (2 ^ nat ?c)"
  have k: "0 \<le> ?k" "?k < 2 ^ nat ?c" using assms(2) by (simp_all add: Int63n_law_def)
  have "(2 :: int) ^ nat ?c \<le> 2 ^ nat (maxExp b)" using c by (intro power_increasing) (simp_all add: nat_mono)
  with k(2) have "?k \<le> 2 ^ nat (maxExp b)" by linarith
  then have "baseDelay b * ?k \<le> baseDelay b * 2 ^ nat (maxExp b)"
    using assms(1) by (intro mult_left_mono) (simp_all add: backoff_ok_def)
  then have "baseDelay b * ?k < 2 ^ 63" using assms(1) by (simp add: backoff_ok_def)
  moreover have "0 \<le> baseDelay b * ?k" using k(1) assms(1) by (intro mult_nonneg_nonneg) (simp_all add: backoff_ok_def)
  moreover have "0 \<le> x \<Longrightarrow> x < 2 ^ 63 \<Longrightarrow> is_i64 x" for x :: int by (simp add: is_i64_def)
  ultimately have "i64 (baseDelay b * ?k) = baseDelay b * ?k" by (intro i64_id) blast
  then have "Get r b = Inr (baseDelay b * ?k, b\<lparr>bo_c := ?c\<rparr>)"
    using c n unfolding Get_def b by (simp add: shl_one_def Let_def not_less del: min_less_iff_conj)
  with k show ?thesis by blast
qed

lemma backoff_ok_step: "backoff_ok b \<Longrightarrow> backoff_ok (b\<lparr>bo_c := min (bo_c b + 1) (maxExp b)\<rparr>)"
  by (simp add: backoff_ok_def)

lemma get_all_bounds:
  assumes "backoff_ok b" "list_all Int63n_law rs"
  shows "\<exists>ds b'. get_all rs b = Inr (ds, b') \<and> length ds = length rs \<and>
    (\<forall>i < length rs. \<exists>k. 0 \<le> k \<and> k < 2 ^ nat (min (bo_c b + 1 + int i) (maxExp b)) \<and> ds ! i = baseDelay b * k)"
  using assms
proof (induction rs arbitrary: b)
  case (Cons r rs)
  let ?b = "b\<lparr>bo_c := min (bo_c b + 1) (maxExp b)\<rparr>"
  obtain k where k: "0 \<le> k" "k < 2 ^ nat (min (bo_c b + 1) (maxExp b))" "Get r b = Inr (baseDelay b * k, ?b)"
    using Get_step [of b r] Cons.prems by auto
  obtain ds b' where ds: "get_all rs ?b = Inr (ds, b')" "length ds = length rs"
    "\<forall>i < length rs. \<exists>k. 0 \<le> k \<and> k < 2 ^ nat (min (bo_c ?b + 1 + int i) (maxExp ?b)) \<and> ds ! i = baseDelay ?b * k"
    using Cons.IH [of ?b] Cons.prems backoff_ok_step [of b] by auto
  have "\<exists>k'. 0 \<le> k' \<and> k' < 2 ^ nat (min (bo_c b + 1 + int i) (maxExp b)) \<and> ((baseDelay b * k) # ds) ! i = baseDelay b * k'"
    if i: "i < length (r # rs)" for i
  proof (cases i)
    case 0
    with k show ?thesis by auto
  next
    case (Suc j)
    with i obtain k' where "0 \<le> k'" "k' < 2 ^ nat (min (bo_c ?b + 1 + int j) (maxExp b))" "ds ! j = baseDelay b * k'"
      using ds(3) by auto
    moreover have "min (bo_c ?b + 1 + int j) (maxExp b) = min (bo_c b + 1 + int i) (maxExp b)" using Suc by simp
    ultimately show ?thesis using Suc by auto
  qed
  with ds(1,2) k(3) show ?case by simp
qed simp

text \<open>
  C38. The receiver's back-off of \<^verbatim>\<open>newExpBackoff(50us, 11)\<close>: the \<open>i\<close>-th delay is a multiple of
  50 microseconds below 50 times 2 to the \<open>i\<close>, and never reaches 102.4 milliseconds; no call
  panics or overflows. The first is 0 or 50 microseconds, so the receiver may start without
  waiting at all.
\<close>

theorem backoff_bounds:
  assumes "list_all Int63n_law rs"
  shows "\<exists>ds b. get_all rs (newExpBackoff 50000 11) = Inr (ds, b) \<and> length ds = length rs \<and>
    (\<forall>i < length rs. \<exists>k. 0 \<le> k \<and> k < 2 ^ min (i + 1) 11 \<and> ds ! i = 50000 * k \<and> ds ! i < 102400000)"
proof -
  have "backoff_ok (newExpBackoff 50000 11)" by (simp add: backoff_ok_def newExpBackoff_def)
  note get_all_bounds [OF this assms]
  then obtain ds b where ds: "get_all rs (newExpBackoff 50000 11) = Inr (ds, b)"
    "length ds = length rs"
    "\<forall>i < length rs. \<exists>k. 0 \<le> k \<and> k < 2 ^ nat (min (1 + int i) 11) \<and> ds ! i = 50000 * k"
    by (auto simp: newExpBackoff_def)
  have "\<exists>k. 0 \<le> k \<and> k < 2 ^ min (i + 1) 11 \<and> ds ! i = 50000 * k \<and> ds ! i < 102400000" if "i < length rs" for i
  proof -
    obtain k where k: "0 \<le> k" "k < 2 ^ nat (min (1 + int i) 11)" "ds ! i = 50000 * k" using ds(3) \<open>i < length rs\<close> by blast
    have e: "nat (min (1 + int i) 11) = min (i + 1) 11" by arith
    have "(2 :: int) ^ min (i + 1) 11 \<le> 2 ^ 11" by (intro power_increasing) simp_all
    with k e show ?thesis by auto
  qed
  with ds(1,2) show ?thesis by blast
qed

theorem backoff_bounds_witness:
  "\<exists>b. get_all [\<lambda>n. 0, \<lambda>n. n - 1, \<lambda>n. n - 1] (newExpBackoff 50000 11) = Inr ([0, 150000, 350000], b)"
proof -
  obtain ds b where g: "get_all [\<lambda>n. 0, \<lambda>n. n - 1, \<lambda>n. n - 1] (newExpBackoff 50000 11) = Inr (ds, b)"
    using backoff_bounds [of "[\<lambda>n. 0, \<lambda>n. n - 1, \<lambda>n. n - 1]"] by (auto simp: Int63n_law_def)
  moreover from this have "ds = [0, 150000, 350000]"
    by (simp add: Get_def newExpBackoff_def shl_one_def i64_def Let_def)
  ultimately show ?thesis by blast
qed

end
