(* ===== verification/Pinger_Run.thy ===== *)
theory Pinger_Run
  imports Pinger_Tracker Backoff
begin

text \<open>
  \<^verbatim>\<open>run\<close> of \<^verbatim>\<open>ping.go\<close> as a transition system: the three goroutines of its error group (the
  watcher of the context, \<^verbatim>\<open>recvICMP\<close>, \<^verbatim>\<open>runLoop\<close>), the calling goroutine with its two
  deferred calls, and the world around them (the context, a client's \<^verbatim>\<open>Stop\<close>, the tickers, the
  network). A step of a goroutine is one channel operation, one call on the connection, or the
  code between two of them. A panic ends everything and is kept in \<open>boom\<close>.
\<close>

section \<open>State\<close>

text \<open>
  A goroutine of the group: in its body, about to run its deferred \<^verbatim>\<open>p.Stop()\<close>, returned with an
  error to hand to the group, or gone.
\<close>

datatype 'a gor = Running 'a | Stopping "go_error option" | Returned "go_error option" | Exited

datatype recv_pc = RInit | RTop | RArm "byte list" | RRead "byte list" | RSend raw_packet

text \<open>\<open>LSend first dst cur b\<close> is the write loop of a \<^verbatim>\<open>sendICMP\<close>; \<open>first\<close> is the call before the \<^verbatim>\<open>for\<close>.\<close>

datatype 'u loop_pc = LInit | LSend bool net_addr 'u "byte list" | LSelect

datatype main_pc = Waiting | Closing "go_error option" | Finishing "go_error option" | Done "go_error option"

record ('u, 'c) run_state =
  rs_p :: "'u pinger"
  rs_conn :: 'c
  rs_queue :: "raw_packet list"
  rs_closed :: bool
  ctx_err :: "go_error option"
  group_err :: "go_error option"
  watcher :: "unit gor"
  receiver :: "recv_pc gor"
  rs_backoff :: expBackoff
  rs_delay :: duration
  looper :: "'u loop_pc gor"
  timeout_on :: bool
  timeout_tick :: bool
  interval_on :: bool
  interval_tick :: bool
  main :: main_pc
  trace :: "event list"
  boom :: "panic option"

text \<open>Capacity of the channel \<^verbatim>\<open>recv\<close>.\<close>

definition recv_cap :: nat where
  "recv_cap = 5"

definition with_go :: "'x go \<Rightarrow> ('x \<Rightarrow> ('u, 'c) run_state) \<Rightarrow> ('u, 'c) run_state \<Rightarrow> ('u, 'c) run_state" where
  "with_go r f s = (case r of Inl e \<Rightarrow> s\<lparr>boom := Some e\<rparr> | Inr x \<Rightarrow> f x)"

definition emit :: "event list \<Rightarrow> ('u, 'c) run_state \<Rightarrow> ('u, 'c) run_state" where
  "emit evs s = s\<lparr>trace := trace s @ evs\<rparr>"

text \<open>The start: the TTL flag, then \<^verbatim>\<open>OnSetup\<close> and the goroutines. An error of the flag is returned at once.\<close>

definition run_begin :: "'c packet_conn \<Rightarrow> 'c \<Rightarrow> 'u pinger \<Rightarrow> ('c \<times> go_error) + ('u, 'c) run_state" where
  "run_begin pc c p = (case SetFlagTTL pc c of
       (c, Some err) \<Rightarrow> Inl (c, err)
     | (c, None) \<Rightarrow> Inr \<lparr>
         rs_p = p, rs_conn = c, rs_queue = [], rs_closed = False, ctx_err = None, group_err = None,
         watcher = Running (), receiver = Running RInit, rs_backoff = newExpBackoff 50000 11, rs_delay = 0,
         looper = Running LInit, timeout_on = False, timeout_tick = False, interval_on = False,
         interval_tick = False, main = Waiting, trace = (if OnSetup p then [CallOnSetup] else []), boom = None\<rparr>)"

section \<open>The error group\<close>

text \<open>A goroutine hands its error in: the first error is kept and cancels the group's context.\<close>

definition hand_in :: "go_error option \<Rightarrow> ('u, 'c) run_state \<Rightarrow> ('u, 'c) run_state" where
  "hand_in err s = (case err of
       None \<Rightarrow> s
     | Some e \<Rightarrow> s\<lparr>group_err := (case group_err s of None \<Rightarrow> Some e | Some e' \<Rightarrow> Some e'),
                   ctx_err := (case ctx_err s of None \<Rightarrow> Some ContextCanceled | Some e' \<Rightarrow> Some e')\<rparr>)"

section \<open>recvICMP\<close>

definition recv_offset :: "goos \<Rightarrow> 'u pinger \<Rightarrow> int" where
  "recv_offset os p = (if ipv4 p \<and> \<not> Privileged p \<and> os = Darwin then 20 else 0)"

definition make_bytes :: "int \<Rightarrow> byte list go" where
  "make_bytes n = (if n < 0 then Inl InvalidArgument else Inr (replicate (nat n) 0))"

definition op_timeout :: "go_error \<Rightarrow> bool" where
  "op_timeout e = (case e of OpError tmo inner \<Rightarrow> tmo | _ \<Rightarrow> False)"

definition recv_init :: "(int \<Rightarrow> int) \<Rightarrow> ('u, 'c) run_state \<Rightarrow> ('u, 'c) run_state" where
  "recv_init Int63n s = with_go (Get Int63n (newExpBackoff 50000 11))
     (\<lambda>(d, b). s\<lparr>rs_delay := d, rs_backoff := b, receiver := Running RTop\<rparr>) s"

definition recv_top :: "goos \<Rightarrow> ('u, 'c) run_state \<Rightarrow> ('u, 'c) run_state" where
  "recv_top os s =
     (if chan_ready (done_chan (rs_p s)) then s\<lparr>receiver := Stopping None\<rparr>
      else with_go (make_bytes (i64 (getMessageLength os (rs_p s) + recv_offset os (rs_p s))))
        (\<lambda>b. s\<lparr>receiver := Running (RArm b)\<rparr>) s)"

definition recv_arm :: "'c packet_conn \<Rightarrow> time \<Rightarrow> byte list \<Rightarrow> ('u, 'c) run_state \<Rightarrow> ('u, 'c) run_state" where
  "recv_arm pc now b s = (case SetReadDeadline pc (rs_conn s) (now + rs_delay s) of
       (c, Some err) \<Rightarrow> s\<lparr>rs_conn := c, receiver := Stopping (Some err)\<rparr>
     | (c, None) \<Rightarrow> s\<lparr>rs_conn := c, receiver := Running (RRead b)\<rparr>)"

definition recv_read :: "'c packet_conn \<Rightarrow> (int \<Rightarrow> int) \<Rightarrow> byte list \<Rightarrow> ('u, 'c) run_state \<Rightarrow> ('u, 'c) run_state" where
  "recv_read pc Int63n b s = (case ReadFrom pc (rs_conn s) b of
       (c, b, n, t, a, err) \<Rightarrow>
         let s = s\<lparr>rs_conn := c\<rparr>
         in case err of
              Some e \<Rightarrow>
                let s = (if OnRecvError (rs_p s) then emit [CallOnRecvError e] s else s)
                in if op_timeout e
                   then with_go (Get Int63n (rs_backoff s))
                     (\<lambda>(d, bo). s\<lparr>rs_delay := d, rs_backoff := bo, receiver := Running RTop\<rparr>) s
                   else s\<lparr>receiver := Stopping (Some e)\<rparr>
            | None \<Rightarrow> s\<lparr>receiver := Running (RSend \<lparr>bytes = b, nbytes = n, ttl = t, src_addr = a\<rparr>)\<rparr>)"

definition recv_push :: "raw_packet \<Rightarrow> ('u, 'c) run_state \<Rightarrow> ('u, 'c) run_state" where
  "recv_push k s =
     (if rs_closed s then s\<lparr>boom := Some SendOnClosed\<rparr>
      else s\<lparr>rs_queue := rs_queue s @ [k], receiver := Running RTop\<rparr>)"

section \<open>runLoop\<close>

text \<open>The deferred function stops both tickers; a stopped ticker holds no tick.\<close>

definition stop_interval :: "('u, 'c) run_state \<Rightarrow> ('u, 'c) run_state" where
  "stop_interval s = s\<lparr>interval_on := False, interval_tick := False\<rparr>"

definition loop_return :: "go_error option \<Rightarrow> ('u, 'c) run_state \<Rightarrow> ('u, 'c) run_state" where
  "loop_return err s = (stop_interval s)\<lparr>timeout_on := False, timeout_tick := False, looper := Stopping err\<rparr>"

text \<open>The test at the end of the loop body.\<close>

definition loop_again :: "('u, 'c) run_state \<Rightarrow> ('u, 'c) run_state" where
  "loop_again s =
     (if Count (rs_p s) > 0 \<and> PacketsRecv (rs_p s) \<ge> Count (rs_p s) then loop_return None s
      else s\<lparr>looper := Running LSelect\<rparr>)"

definition log_fatal :: "string \<Rightarrow> go_error \<Rightarrow> ('u, 'c) run_state \<Rightarrow> ('u, 'c) run_state" where
  "log_fatal format err s = emit (map LogLine (Fatalf (logger_or_noop (p_logger (rs_p s))) format [ArgError err])) s"

definition send_failed :: "bool \<Rightarrow> go_error \<Rightarrow> ('u, 'c) run_state \<Rightarrow> ('u, 'c) run_state" where
  "send_failed first err s =
     (if first then loop_return (Some err) s
      else loop_again (log_fatal ''sending packet: %s'' err s))"

definition loop_send_begin ::
  "'u env \<Rightarrow> 'c packet_conn \<Rightarrow> time \<Rightarrow> bool \<Rightarrow> ('u, 'c) run_state \<Rightarrow> ('u, 'c) run_state" where
  "loop_send_begin env pc now first s = with_go (send_begin env pc now (rs_conn s) (rs_p s))
     (\<lambda>r. case r of
        Inl err \<Rightarrow> send_failed first err s
      | Inr (dst, cur, b) \<Rightarrow> s\<lparr>looper := Running (LSend first dst cur b)\<rparr>) s"

definition loop_init :: "'u env \<Rightarrow> 'c packet_conn \<Rightarrow> time \<Rightarrow> ('u, 'c) run_state \<Rightarrow> ('u, 'c) run_state" where
  "loop_init env pc now s =
     (if Timeout (rs_p s) \<le> 0 \<or> Interval (rs_p s) \<le> 0 then s\<lparr>boom := Some NonPositiveTicker\<rparr>
      else loop_send_begin env pc now True (s\<lparr>timeout_on := True, interval_on := True\<rparr>))"

definition loop_attempt ::
  "'u env \<Rightarrow> 'c packet_conn \<Rightarrow> 'u \<Rightarrow> bool \<Rightarrow> net_addr \<Rightarrow> 'u \<Rightarrow> byte list \<Rightarrow> ('u, 'c) run_state \<Rightarrow> ('u, 'c) run_state" where
  "loop_attempt env pc new first dst cur b s = (case send_attempt env pc b dst new cur (rs_p s) (rs_conn s) of
       Retry c evs \<Rightarrow> emit evs (s\<lparr>rs_conn := c\<rparr>)
     | Panics pn \<Rightarrow> s\<lparr>boom := Some pn\<rparr>
     | Returns err c p evs \<Rightarrow>
         (let s = emit evs (s\<lparr>rs_conn := c, rs_p := p\<rparr>)
          in case err of
               Some e \<Rightarrow> send_failed first e s
             | None \<Rightarrow> if first then s\<lparr>looper := Running LSelect\<rparr> else loop_again s))"

definition loop_recv :: "'u env \<Rightarrow> time \<Rightarrow> raw_packet \<Rightarrow> ('u, 'c) run_state \<Rightarrow> ('u, 'c) run_state" where
  "loop_recv env now r s = with_go (processPacket env now r (rs_p s))
     (\<lambda>(err, p, evs).
        let s = emit evs (s\<lparr>rs_p := p\<rparr>);
            s = (case err of Some e \<Rightarrow> log_fatal ''processing received packet: %s'' e s | None \<Rightarrow> s)
        in loop_again s) s"

definition loop_interval :: "'u env \<Rightarrow> 'c packet_conn \<Rightarrow> time \<Rightarrow> ('u, 'c) run_state \<Rightarrow> ('u, 'c) run_state" where
  "loop_interval env pc now s =
     (let s = s\<lparr>interval_tick := False\<rparr>
      in if Count (rs_p s) > 0 \<and> PacketsSent (rs_p s) \<ge> Count (rs_p s) then stop_interval s
         else loop_send_begin env pc now False s)"

section \<open>finish\<close>

definition finish :: "'u pinger \<Rightarrow> event list" where
  "finish p = (if OnFinish p then [CallOnFinish (Statistics p)] else [])"

definition main_close :: "go_error option \<Rightarrow> ('u, 'c) run_state \<Rightarrow> ('u, 'c) run_state" where
  "main_close r s =
     (if rs_closed s then s\<lparr>boom := Some CloseOfClosed\<rparr> else s\<lparr>rs_closed := True, main := Finishing r\<rparr>)"

section \<open>Steps\<close>

text \<open>
  What the goroutines do. The \<^verbatim>\<open>select\<close> statements choose among their ready cases; the clock,
  the draws of \<^verbatim>\<open>rand\<close> and the UUID of a roll-over, which \<^verbatim>\<open>uuid.New\<close> makes a new one, are free.
\<close>

inductive go_step :: "'u env \<Rightarrow> 'c packet_conn \<Rightarrow> ('u, 'c) run_state \<Rightarrow> ('u, 'c) run_state \<Rightarrow> bool"
  for env :: "'u env" and pc :: "'c packet_conn" where
  watch_ctx: "watcher s = Running () \<Longrightarrow> ctx_err s = Some e \<Longrightarrow>
    go_step env pc s (with_go (Stop (rs_p s)) (\<lambda>p. s\<lparr>rs_p := p, watcher := Returned (Some e)\<rparr>) s)"
| watch_done: "watcher s = Running () \<Longrightarrow> chan_ready (done_chan (rs_p s)) \<Longrightarrow>
    go_step env pc s (s\<lparr>watcher := Returned None\<rparr>)"
| watch_exit: "watcher s = Returned err \<Longrightarrow> go_step env pc s (hand_in err (s\<lparr>watcher := Exited\<rparr>))"
| recv_init: "receiver s = Running RInit \<Longrightarrow> Int63n_law r \<Longrightarrow> go_step env pc s (recv_init r s)"
| recv_top: "receiver s = Running RTop \<Longrightarrow> go_step env pc s (recv_top (GOOS env) s)"
| recv_arm: "receiver s = Running (RArm b) \<Longrightarrow> go_step env pc s (recv_arm pc now b s)"
| recv_read: "receiver s = Running (RRead b) \<Longrightarrow> Int63n_law r \<Longrightarrow> go_step env pc s (recv_read pc r b s)"
| recv_quit: "receiver s = Running (RSend k) \<Longrightarrow> chan_ready (done_chan (rs_p s)) \<Longrightarrow>
    go_step env pc s (s\<lparr>receiver := Stopping None\<rparr>)"
| recv_push: "receiver s = Running (RSend k) \<Longrightarrow> rs_closed s \<or> length (rs_queue s) < recv_cap \<Longrightarrow>
    go_step env pc s (recv_push k s)"
| recv_stop: "receiver s = Stopping err \<Longrightarrow>
    go_step env pc s (with_go (Stop (rs_p s)) (\<lambda>p. s\<lparr>rs_p := p, receiver := Returned err\<rparr>) s)"
| recv_exit: "receiver s = Returned err \<Longrightarrow> go_step env pc s (hand_in err (s\<lparr>receiver := Exited\<rparr>))"
| loop_init: "looper s = Running LInit \<Longrightarrow> go_step env pc s (loop_init env pc now s)"
| loop_attempt: "looper s = Running (LSend first dst cur b) \<Longrightarrow> new \<notin> set (trackerUUIDs (rs_p s)) \<Longrightarrow>
    go_step env pc s (loop_attempt env pc new first dst cur b s)"
| loop_done: "looper s = Running LSelect \<Longrightarrow> chan_ready (done_chan (rs_p s)) \<Longrightarrow>
    go_step env pc s (loop_return None s)"
| loop_timeout: "looper s = Running LSelect \<Longrightarrow> timeout_tick s \<Longrightarrow> go_step env pc s (loop_return None s)"
| loop_recv: "looper s = Running LSelect \<Longrightarrow> rs_queue s = r # rest \<Longrightarrow>
    go_step env pc s (loop_recv env now r (s\<lparr>rs_queue := rest\<rparr>))"
| loop_recv_closed: "looper s = Running LSelect \<Longrightarrow> rs_queue s = [] \<Longrightarrow> rs_closed s \<Longrightarrow>
    go_step env pc s (s\<lparr>boom := Some NilDereference\<rparr>)"
| loop_interval: "looper s = Running LSelect \<Longrightarrow> interval_tick s \<Longrightarrow> go_step env pc s (loop_interval env pc now s)"
| loop_stop: "looper s = Stopping err \<Longrightarrow>
    go_step env pc s (with_go (Stop (rs_p s)) (\<lambda>p. s\<lparr>rs_p := p, looper := Returned err\<rparr>) s)"
| loop_exit: "looper s = Returned err \<Longrightarrow> go_step env pc s (hand_in err (s\<lparr>looper := Exited\<rparr>))"
| main_wait: "main s = Waiting \<Longrightarrow> watcher s = Exited \<Longrightarrow> receiver s = Exited \<Longrightarrow> looper s = Exited \<Longrightarrow>
    go_step env pc s (s\<lparr>main := Closing (group_err s), ctx_err := (case ctx_err s of None \<Rightarrow> Some ContextCanceled | Some e \<Rightarrow> Some e)\<rparr>)"
| main_close: "main s = Closing r \<Longrightarrow> go_step env pc s (main_close r s)"
| main_finish: "main s = Finishing r \<Longrightarrow> go_step env pc s (emit (finish (rs_p s)) (s\<lparr>main := Done r\<rparr>))"

text \<open>
  What the world around a run may do: cancel the context, call \<^verbatim>\<open>Stop\<close>, let the timeout strike, and
  change a connection (datagrams that leave and arrive). The flags single out schedules: a run under
  \<^verbatim>\<open>context.Background()\<close> is not cancelled.
\<close>

record 'c world =
  may_cancel :: bool
  may_stop :: bool
  may_time_out :: bool
  traffic :: "'c \<Rightarrow> 'c \<Rightarrow> bool"

definition free_world :: "('c \<Rightarrow> 'c \<Rightarrow> bool) \<Rightarrow> 'c world" where
  "free_world tr = \<lparr>may_cancel = True, may_stop = True, may_time_out = True, traffic = tr\<rparr>"

definition silent :: "'c world" where
  "silent = free_world (\<lambda>c c'. False)"

lemma world_simps [simp]:
  "may_cancel (free_world tr)" "may_stop (free_world tr)" "may_time_out (free_world tr)" "traffic (free_world tr) = tr"
  "may_cancel silent" "may_stop silent" "may_time_out silent" "traffic silent = (\<lambda>c c'. False)"
  by (simp_all add: free_world_def silent_def)

inductive world_step :: "'c world \<Rightarrow> ('u, 'c) run_state \<Rightarrow> ('u, 'c) run_state \<Rightarrow> bool"
  for wd :: "'c world" where
  cancel: "may_cancel wd \<Longrightarrow> ctx_err s = None \<Longrightarrow> e = ContextCanceled \<or> e = ContextDeadlineExceeded \<Longrightarrow>
    world_step wd s (s\<lparr>ctx_err := Some e\<rparr>)"
| client_stop: "may_stop wd \<Longrightarrow> world_step wd s (with_go (Stop (rs_p s)) (\<lambda>p. s\<lparr>rs_p := p\<rparr>) s)"
| tick_timeout: "may_time_out wd \<Longrightarrow> timeout_on s \<Longrightarrow> world_step wd s (s\<lparr>timeout_tick := True\<rparr>)"
| tick_interval: "interval_on s \<Longrightarrow> world_step wd s (s\<lparr>interval_tick := True\<rparr>)"
| network: "traffic wd (rs_conn s) c \<Longrightarrow> world_step wd s (s\<lparr>rs_conn := c\<rparr>)"

definition run_step :: "'u env \<Rightarrow> 'c packet_conn \<Rightarrow> 'c world \<Rightarrow> ('u, 'c) run_state \<Rightarrow> ('u, 'c) run_state \<Rightarrow> bool" where
  "run_step env pc wd s s' \<longleftrightarrow> boom s = None \<and> (go_step env pc s s' \<or> world_step wd s s')"

text \<open>The states a run reaches in \<open>n\<close> steps.\<close>

inductive reached :: "'u env \<Rightarrow> 'c packet_conn \<Rightarrow> 'c world \<Rightarrow> ('u, 'c) run_state \<Rightarrow> nat \<Rightarrow> ('u, 'c) run_state \<Rightarrow> bool"
  for env :: "'u env" and pc :: "'c packet_conn" and wd :: "'c world" and s0 :: "('u, 'c) run_state" where
  reached_0: "reached env pc wd s0 0 s0"
| reached_Suc: "reached env pc wd s0 n s \<Longrightarrow> run_step env pc wd s s' \<Longrightarrow> reached env pc wd s0 (Suc n) s'"

inductive_simps reached_none [simp]: "reached env pc wd s0 0 s"

inductive_simps reached_more: "reached env pc wd s0 (Suc n) s"

end
