(* ===== verification/Run_Invariant.thy ===== *)
theory Run_Invariant
  imports Pinger_Run
begin

text \<open>
  The invariant of a run: what holds of the pinger, the channels and the goroutines in every
  state the steps of \<open>Pinger_Run\<close> reach from a pinger that is ready. First what one call keeps of
  the pinger, then each step, then all of them.
\<close>

section \<open>What one call keeps of the pinger\<close>

text \<open>
  The pinger during a run: its books balance, at most \<open>n\<close> requests are counted, and what a run
  only reads is as it was in \<open>p0\<close>.
\<close>

definition p_inv :: "'u pinger \<Rightarrow> nat \<Rightarrow> 'u pinger \<Rightarrow> bool" where
  "p_inv p0 n p \<longleftrightarrow> tracked p \<and> PacketsSent p \<le> int n \<and> done_chan p \<noteq> NilChan \<and>
     Count p = Count p0 \<and> Timeout p = Timeout p0 \<and> Interval p = Interval p0 \<and> Size p = Size p0 \<and>
     p_logger p = p_logger p0 \<and> ipaddr p = ipaddr p0 \<and> ipv4 p = ipv4 p0 \<and> protocol p = protocol p0 \<and>
     OnRecv p = OnRecv p0 \<and> OnSend p = OnSend p0 \<and> OnFinish p = OnFinish p0"

lemma tracked_done [simp]: "tracked (p\<lparr>done_chan := c\<rparr>) = tracked p"
  using used_cong [of "p\<lparr>done_chan := c\<rparr>" p] pending_cong [of "p\<lparr>done_chan := c\<rparr>" p]
  by (simp add: tracked_def)

lemma p_inv_Stop:
  "p_inv p0 n p \<Longrightarrow> Stop p = Inr q \<Longrightarrow> p_inv p0 n q \<and> done_chan q = ClosedChan \<and> q = p\<lparr>done_chan := ClosedChan\<rparr>"
  using Stop_Inr [of p] by (auto simp: p_inv_def)

lemma p_inv_mono: "p_inv p0 n p \<Longrightarrow> p_inv p0 (Suc n) p"
  by (simp add: p_inv_def)

text \<open>The numbers of callbacks of each kind in a trace.\<close>

fun is_recv_event :: "event \<Rightarrow> bool" where
  "is_recv_event (CallOnRecv k) = True"
| "is_recv_event _ = False"

fun is_send_event :: "event \<Rightarrow> bool" where
  "is_send_event (CallOnSend k) = True"
| "is_send_event _ = False"

fun is_finish_event :: "event \<Rightarrow> bool" where
  "is_finish_event (CallOnFinish st) = True"
| "is_finish_event _ = False"

definition count_events :: "(event \<Rightarrow> bool) \<Rightarrow> event list \<Rightarrow> int" where
  "count_events P evs = int (length (filter P evs))"

lemma count_events_simps [simp]:
  "count_events P [] = 0" "count_events P (xs @ ys) = count_events P xs + count_events P ys"
  "count_events P (x # xs) = (if P x then 1 else 0) + count_events P xs"
  by (simp_all add: count_events_def)

lemma count_events_logs [simp]:
  "count_events is_recv_event (map LogLine ls) = 0" "count_events is_send_event (map LogLine ls) = 0"
  "count_events is_finish_event (map LogLine ls) = 0"
  by (simp_all add: count_events_def filter_empty_conv)

lemma count_events_callbacks:
  "count_events is_recv_event (callbacks evs) = count_events is_recv_event evs"
  "count_events is_send_event (callbacks evs) = count_events is_send_event evs"
  "count_events is_finish_event (callbacks evs) = count_events is_finish_event evs"
proof -
  have "is_callback e" if "is_recv_event e \<or> is_send_event e \<or> is_finish_event e" for e
    using that by (cases e) simp_all
  then show "count_events is_recv_event (callbacks evs) = count_events is_recv_event evs"
    "count_events is_send_event (callbacks evs) = count_events is_send_event evs"
    "count_events is_finish_event (callbacks evs) = count_events is_finish_event evs"
    by (simp_all add: count_events_def callbacks_def filter_filter cong: conj_cong) (metis (mono_tags, lifting) filter_cong)+
qed

text \<open>One packet processed: the counters and the callbacks of receptions move together.\<close>

lemma process_run:
  assumes p: "p_inv p0 n p" and q: "processPacket env now r p = Inr (err, q, evs)"
  shows "p_inv p0 n q \<and> done_chan q = done_chan p \<and> PacketsSent q = PacketsSent p \<and> trackerUUIDs q = trackerUUIDs p \<and>
    PacketsRecv q - PacketsRecv p \<in> {0, 1} \<and>
    count_events is_recv_event evs = (if OnRecv p0 then PacketsRecv q - PacketsRecv p else 0) \<and>
    count_events is_send_event evs = 0 \<and> count_events is_finish_event evs = 0"
proof (cases "\<exists>u k d. reply_to env p r u k d")
  case True
  then obtain u k d where "reply_to env p r u k d" by blast
  from processPacket_reply_Inr [OF this q] obtain i where
    i: "if inflight p u k then updateStatistics i (delete_awaiting u k p) = Inr q \<and>
          callbacks evs = (if OnRecv q then [CallOnRecv i] else [])
        else q = p\<lparr>PacketsRecvDuplicates := i64 (PacketsRecvDuplicates p + 1)\<rparr> \<and>
          callbacks evs = (if OnDuplicateRecv p then [CallOnDuplicateRecv i] else [])"
    by (auto simp: Let_def)
  note c = count_events_callbacks [of evs, symmetric]
  have t: "tracked p" using p by (simp add: p_inv_def)
  show ?thesis
  proof (cases "inflight p u k")
    case True
    with i have q: "updateStatistics i (delete_awaiting u k p) = Inr q" and e: "callbacks evs = (if OnRecv q then [CallOnRecv i] else [])"
      by simp_all
    note k = updateStatistics_keeps [OF q] updateStatistics_frame [OF q]
    from tracked_answer [OF t True q] p k e c show ?thesis
      by (auto simp: p_inv_def delete_awaiting_keeps)
  next
    case False
    with i have q: "q = p\<lparr>PacketsRecvDuplicates := i64 (PacketsRecvDuplicates p + 1)\<rparr>"
      and e: "callbacks evs = (if OnDuplicateRecv p then [CallOnDuplicateRecv i] else [])" by simp_all
    with p c tracked_duplicate [OF t] show ?thesis by (auto simp: p_inv_def)
  qed
next
  case False
  with processPacket_foreign [of env p r now] q have "q = p" "callbacks evs = []" by auto
  with p count_events_callbacks [of evs] show ?thesis by auto
qed

text \<open>One attempt to write: only its success changes the pinger.\<close>

lemma attempt_run:
  assumes p: "p_inv p0 n p" "int n < 2 ^ 63 - 1" and new: "new \<notin> set (trackerUUIDs p)"
    and a: "send_attempt env pc b dst new (last (trackerUUIDs p)) p c = Returns err c' q evs"
  shows "p_inv p0 (Suc n) q \<and> done_chan q = done_chan p \<and> PacketsRecv q = PacketsRecv p \<and>
    PacketsSent q = PacketsSent p + (if err = None then 1 else 0) \<and>
    count_events is_send_event evs = (if OnSend p0 then PacketsSent q - PacketsSent p else 0) \<and>
    count_events is_recv_event evs = 0 \<and> count_events is_finish_event evs = 0"
proof -
  obtain c1 m e where w: "WriteTo pc c b dst = (c1, m, e)" by (metis prod_cases3)
  have t: "tracked p" "PacketsSent p < 2 ^ 63 - 1" using p by (auto simp: p_inv_def)
  show ?thesis
  proof (cases e)
    case None
    from a obtain S where S: "awaitingSequences p (last (trackerUUIDs p)) = Some S"
      "q = after_send new (last (trackerUUIDs p)) S p" "err = None" "evs = (if OnSend p then [CallOnSend (out_packet p b)] else [])"
      using t(1) by (auto simp: send_attempt_def w None record_sent_eq tracked_def split: option.splits sum.splits)
    from tracked_send [OF t(1) S(1) new t(2)] S(2-) p show ?thesis
      by (auto simp: p_inv_def after_send_def Let_def)
  next
    case (Some x)
    with a have "q = p" "err = Some x" "evs = (if OnSendError p then [CallOnSendError (out_packet p b) x] else [])"
      by (auto simp: send_attempt_def w Let_def split: if_splits prod.splits option.splits)
    with p_inv_mono [OF p(1)] show ?thesis by simp
  qed
qed

lemma retry_run:
  assumes "send_attempt env pc b dst new cur p c = Retry c' evs"
  shows "count_events is_send_event evs = 0 \<and> count_events is_recv_event evs = 0 \<and> count_events is_finish_event evs = 0"
  using assms by (auto simp: send_attempt_def Let_def split: if_splits prod.splits option.splits sum.splits)

section \<open>The invariant\<close>

text \<open>
  What a run needs of its client: a configured pinger with an address and a logger, positive times
  and a size that a buffer can have.
\<close>

definition run_ready :: "'u pinger \<Rightarrow> bool" where
  "run_ready p \<longleftrightarrow> (\<exists>u. configured u p) \<and> ipaddr p \<noteq> None \<and> p_logger p \<noteq> None \<and>
     0 < Timeout p \<and> 0 < Interval p \<and> 0 \<le> Size p \<and> Size p \<le> 2 ^ 52"

fun gone :: "'a gor \<Rightarrow> bool" where
  "gone (Returned e) = True"
| "gone Exited = True"
| "gone _ = False"

definition base_inv :: "'u pinger \<Rightarrow> nat \<Rightarrow> ('u, 'c) run_state \<Rightarrow> bool" where
  "base_inv p0 n s \<longleftrightarrow>
     p_inv p0 n (rs_p s) \<and> boom s = None \<and> length (rs_queue s) \<le> recv_cap \<and> backoff_ok (rs_backoff s) \<and>
     (gone (watcher s) \<or> gone (receiver s) \<longrightarrow> done_chan (rs_p s) = ClosedChan) \<and>
     (\<forall>e. watcher s \<noteq> Stopping e) \<and>
     (0 < Count p0 \<longrightarrow> PacketsSent (rs_p s) \<le> Count p0) \<and>
     (main s \<noteq> Waiting \<longrightarrow> watcher s = Exited \<and> receiver s = Exited) \<and>
     (rs_closed s \<longleftrightarrow> (\<exists>r. main s = Finishing r \<or> main s = Done r)) \<and>
     count_events is_recv_event (trace s) = (if OnRecv p0 then PacketsRecv (rs_p s) else 0) \<and>
     count_events is_send_event (trace s) = (if OnSend p0 then PacketsSent (rs_p s) else 0) \<and>
     ((\<forall>r. main s \<noteq> Done r) \<longrightarrow> count_events is_finish_event (trace s) = 0) \<and>
     (\<forall>r. main s = Done r \<longrightarrow>
        (\<exists>evs. trace s = evs @ finish (rs_p s) \<and> count_events is_finish_event evs = 0))"

definition below :: "'u pinger \<Rightarrow> 'u pinger \<Rightarrow> bool" where
  "below p0 p \<longleftrightarrow> (0 < Count p0 \<longrightarrow> PacketsRecv p < Count p0)"

definition loop_inv :: "'u pinger \<Rightarrow> ('u, 'c) run_state \<Rightarrow> bool" where
  "loop_inv p0 s \<longleftrightarrow> (case looper s of
       Running LInit \<Rightarrow> main s = Waiting \<and> PacketsSent (rs_p s) = 0
     | Running (LSend first dst cur b) \<Rightarrow> main s = Waiting \<and> cur = last (trackerUUIDs (rs_p s)) \<and>
         below p0 (rs_p s) \<and> (0 < Count p0 \<longrightarrow> PacketsSent (rs_p s) < Count p0)
     | Running LSelect \<Rightarrow> main s = Waiting \<and> below p0 (rs_p s)
     | Stopping e \<Rightarrow> main s = Waiting
     | Returned e \<Rightarrow> main s = Waiting \<and> done_chan (rs_p s) = ClosedChan
     | Exited \<Rightarrow> done_chan (rs_p s) = ClosedChan)"

definition run_inv :: "'u pinger \<Rightarrow> nat \<Rightarrow> ('u, 'c) run_state \<Rightarrow> bool" where
  "run_inv p0 n s \<longleftrightarrow> base_inv p0 n s \<and> loop_inv p0 s"

lemma tracked_recv_le: "tracked p \<Longrightarrow> PacketsRecv p \<le> PacketsSent p"
  by (simp add: tracked_def)

lemma base_inv_mono: "base_inv p0 n s \<Longrightarrow> base_inv p0 (Suc n) s"
  using p_inv_mono by (auto simp: base_inv_def)

lemma base_no_boom: "base_inv p0 n s \<Longrightarrow> boom s = None"
  by (simp add: base_inv_def)

lemma backoff_ok_new: "backoff_ok (newExpBackoff 50000 11)"
  by (simp add: backoff_ok_def newExpBackoff_def)

section \<open>The looper's steps\<close>

lemma base_inv_looper:
  "base_inv p0 n (s\<lparr>looper := l\<rparr>) = base_inv p0 n s"
  "base_inv p0 n (s\<lparr>interval_tick := b\<rparr>) = base_inv p0 n s"
  "base_inv p0 n (s\<lparr>interval_on := b\<rparr>) = base_inv p0 n s"
  "base_inv p0 n (s\<lparr>timeout_tick := b\<rparr>) = base_inv p0 n s"
  "base_inv p0 n (s\<lparr>timeout_on := b\<rparr>) = base_inv p0 n s"
  "base_inv p0 n (s\<lparr>rs_conn := c\<rparr>) = base_inv p0 n s"
  "base_inv p0 n (s\<lparr>rs_delay := d\<rparr>) = base_inv p0 n s"
  "base_inv p0 n (s\<lparr>ctx_err := e\<rparr>) = base_inv p0 n s"
  "base_inv p0 n (s\<lparr>group_err := e\<rparr>) = base_inv p0 n s"
  by (simp_all add: base_inv_def)

lemma run_inv_return:
  "base_inv p0 n s \<Longrightarrow> main s = Waiting \<Longrightarrow> run_inv p0 n (loop_return e s)"
  by (simp add: run_inv_def loop_inv_def loop_return_def stop_interval_def base_inv_looper)

lemma run_inv_again:
  assumes "base_inv p0 n s" "main s = Waiting"
  shows "run_inv p0 n (loop_again s)"
proof -
  have "Count (rs_p s) = Count p0" using assms(1) by (simp add: base_inv_def p_inv_def)
  then show ?thesis
    using assms run_inv_return [OF assms, of None]
    by (auto simp: loop_again_def run_inv_def loop_inv_def below_def base_inv_looper)
qed

lemma base_inv_logs:
  assumes "base_inv p0 n s" "main s = Waiting"
    and "count_events is_recv_event evs = 0" "count_events is_send_event evs = 0" "count_events is_finish_event evs = 0"
  shows "base_inv p0 n (emit evs s)"
  using assms by (simp add: base_inv_def emit_def)

lemma run_inv_failed:
  assumes "base_inv p0 n s" "main s = Waiting"
  shows "run_inv p0 n (send_failed first e s)"
proof -
  have "base_inv p0 n (log_fatal f e s)" "main (log_fatal f e s) = Waiting" for f
    using base_inv_logs [OF assms] assms(2) by (simp_all add: log_fatal_def emit_def)
  then show ?thesis using run_inv_again [of p0 n "log_fatal ''sending packet: %s'' e s"] run_inv_return [OF assms]
    by (simp add: send_failed_def)
qed

lemma send_begin_ready:
  assumes "p_inv p0 n p" "run_ready p0"
  shows "\<exists>r. send_begin env pc now c p = Inr r \<and> (\<forall>dst cur b. r = Inr (dst, cur, b) \<longrightarrow> cur = last (trackerUUIDs p))"
proof -
  have "ipaddr p \<noteq> None" "trackerUUIDs p \<noteq> []"
    using assms by (auto simp: p_inv_def run_ready_def tracked_def)
  then have "\<exists>dst. send_dst p = Inr dst" "getCurrentTrackerUUID p = Inr (last (trackerUUIDs p))"
    by (auto simp: send_dst_def getCurrentTrackerUUID_last)
  then show ?thesis by (auto simp: send_begin_def Let_def split: sum.split)
qed

lemma run_inv_send_begin:
  assumes "base_inv p0 n s" "main s = Waiting" "run_ready p0" "below p0 (rs_p s)"
    and "0 < Count p0 \<longrightarrow> PacketsSent (rs_p s) < Count p0"
  shows "run_inv p0 n (loop_send_begin env pc now first s)"
proof -
  have "p_inv p0 n (rs_p s)" using assms(1) by (simp add: base_inv_def)
  from send_begin_ready [OF this assms(3), of env pc now "rs_conn s"] obtain r where
    r: "send_begin env pc now (rs_conn s) (rs_p s) = Inr r" "\<And>dst cur b. r = Inr (dst, cur, b) \<Longrightarrow> cur = last (trackerUUIDs (rs_p s))"
    by blast
  show ?thesis
  proof (cases r)
    case (Inl e)
    with r(1) run_inv_failed [OF assms(1,2)] show ?thesis by (simp add: loop_send_begin_def with_go_def)
  next
    case (Inr x)
    obtain dst cur b where x: "x = (dst, cur, b)" by (metis prod_cases3)
    with Inr r assms show ?thesis
      by (simp add: loop_send_begin_def with_go_def run_inv_def loop_inv_def base_inv_looper)
  qed
qed

lemma run_inv_init:
  assumes "run_inv p0 n s" "looper s = Running LInit" "run_ready p0"
  shows "run_inv p0 n (loop_init env pc now s)"
proof -
  have b: "base_inv p0 n s" "main s = Waiting" "PacketsSent (rs_p s) = 0"
    using assms by (simp_all add: run_inv_def loop_inv_def)
  then have p: "tracked (rs_p s)" "Timeout (rs_p s) = Timeout p0" "Interval (rs_p s) = Interval p0"
    by (simp_all add: base_inv_def p_inv_def)
  have "PacketsRecv (rs_p s) \<le> 0" using tracked_recv_le [OF p(1)] b(3) by simp
  then have "below p0 (rs_p s)" by (simp add: below_def)
  with run_inv_send_begin [of p0 n "s\<lparr>timeout_on := True, interval_on := True\<rparr>" env pc now True] b assms(3) p
  show ?thesis by (simp add: loop_init_def run_ready_def base_inv_looper)
qed

lemma run_inv_interval:
  assumes "run_inv p0 n s" "looper s = Running LSelect" "run_ready p0"
  shows "run_inv p0 n (loop_interval env pc now s)"
proof -
  have b: "base_inv p0 n s" "main s = Waiting" "below p0 (rs_p s)" "Count (rs_p s) = Count p0"
    using assms by (simp_all add: run_inv_def loop_inv_def base_inv_def p_inv_def)
  with run_inv_send_begin [of p0 n "s\<lparr>interval_tick := False\<rparr>" env pc now False] assms
  show ?thesis
    by (auto simp: loop_interval_def Let_def base_inv_looper run_inv_def loop_inv_def stop_interval_def)
qed

lemma run_inv_recv:
  assumes "run_inv p0 n s" "looper s = Running LSelect" "rs_queue s = r # rest" "run_ready p0"
  shows "run_inv p0 n (loop_recv env now r (s\<lparr>rs_queue := rest\<rparr>))"
proof -
  have b: "base_inv p0 n s" "main s = Waiting" using assms by (simp_all add: run_inv_def loop_inv_def)
  then have p: "p_inv p0 n (rs_p s)" by (simp add: base_inv_def)
  then have "tracked (rs_p s)" "p_logger (rs_p s) \<noteq> None" using assms(4) by (simp_all add: p_inv_def run_ready_def)
  then obtain err q evs where q: "processPacket env now r (rs_p s) = Inr (err, q, evs)"
    using processPacket_tracked_cases [of "rs_p s" env now r]
    by (metis address_known_logger prod_cases3)
  let ?s = "emit evs (s\<lparr>rs_queue := rest, rs_p := q\<rparr>)"
  have "base_inv p0 n ?s" "main ?s = Waiting"
    using process_run [OF p q] b assms(3) by (auto simp: base_inv_def emit_def)
  then have "run_inv p0 n (loop_again ?s)" "run_inv p0 n (loop_again (log_fatal f e ?s))" for f e
    using run_inv_again base_inv_logs [of p0 n ?s "map LogLine ls" for ls] by (simp_all add: log_fatal_def emit_def run_inv_again)
  then show ?thesis using q by (auto simp: loop_recv_def with_go_def emit_def Let_def split: option.split)
qed

lemma run_inv_attempt:
  assumes "run_inv p0 n s" "looper s = Running (LSend first dst cur b)" "new \<notin> set (trackerUUIDs (rs_p s))"
    and "run_ready p0" "int n < 2 ^ 63 - 1"
  shows "run_inv p0 (Suc n) (loop_attempt env pc new first dst cur b s)"
proof -
  have i: "base_inv p0 n s" "main s = Waiting" "cur = last (trackerUUIDs (rs_p s))" "below p0 (rs_p s)"
    "0 < Count p0 \<longrightarrow> PacketsSent (rs_p s) < Count p0"
    using assms by (simp_all add: run_inv_def loop_inv_def)
  then have p: "p_inv p0 n (rs_p s)" by (simp add: base_inv_def)
  show ?thesis
  proof (cases "send_attempt env pc b dst new cur (rs_p s) (rs_conn s)")
    case (Retry c evs)
    have "base_inv p0 (Suc n) (emit evs (s\<lparr>rs_conn := c\<rparr>))"
      using base_inv_mono [OF i(1)] i(2) retry_run [OF Retry] by (intro base_inv_logs) (simp_all add: base_inv_looper)
    with Retry i assms(2) show ?thesis by (simp add: loop_attempt_def run_inv_def loop_inv_def emit_def)
  next
    case (Returns err c q evs)
    from attempt_run [OF p assms(5,3) Returns [unfolded i(3)]]
    have r: "p_inv p0 (Suc n) q" "done_chan q = done_chan (rs_p s)" "PacketsRecv q = PacketsRecv (rs_p s)"
      "PacketsSent q = PacketsSent (rs_p s) + (if err = None then 1 else 0)"
      "count_events is_send_event evs = (if OnSend p0 then PacketsSent q - PacketsSent (rs_p s) else 0)"
      "count_events is_recv_event evs = 0" "count_events is_finish_event evs = 0" by simp_all
    let ?s = "emit evs (s\<lparr>rs_conn := c, rs_p := q\<rparr>)"
    have "PacketsSent q \<le> Count p0" if "0 < Count p0" using that i(5) r(4) by (auto split: if_splits)
    then have "base_inv p0 (Suc n) ?s" "main ?s = Waiting" "below p0 (rs_p ?s)"
      using r i by (auto simp: base_inv_def emit_def below_def)
    note k = this
    then have "run_inv p0 (Suc n) (?s\<lparr>looper := Running LSelect\<rparr>)"
      unfolding run_inv_def base_inv_looper by (simp add: loop_inv_def)
    with Returns run_inv_failed [OF k(1,2), of first] run_inv_again [OF k(1,2)] show ?thesis
      by (cases err) (simp_all add: loop_attempt_def Let_def)
  next
    case (Panics pn)
    have t: "tracked (rs_p s)" "p_logger (rs_p s) \<noteq> None" using p assms(4) by (simp_all add: p_inv_def run_ready_def)
    then have "trackerUUIDs (rs_p s) \<noteq> []" by (simp add: tracked_def)
    then have "cur \<in> dom (awaitingSequences (rs_p s))" using t i(3) by (simp add: tracked_def)
    then obtain S where "awaitingSequences (rs_p s) cur = Some S" by blast
    then have "\<exists>q. record_sent new cur (rs_p s) = Inr q" using t(1) by (simp add: record_sent_eq tracked_def)
    with send_attempt_outcome [of env pc b dst "rs_conn s" "rs_p s" new cur] Panics t(2) show ?thesis by auto
  qed
qed

section \<open>All steps\<close>

lemma base_inv_stop:
  assumes "base_inv p0 n s" "Stop (rs_p s) = Inr p"
  shows "base_inv p0 n (s\<lparr>rs_p := p\<rparr>)" "done_chan p = ClosedChan"
proof -
  have "p_inv p0 n (rs_p s)" using assms(1) by (simp add: base_inv_def)
  from p_inv_Stop [OF this assms(2)] have p: "p_inv p0 n p" "done_chan p = ClosedChan" "p = rs_p s\<lparr>done_chan := ClosedChan\<rparr>"
    by blast+
  then have "finish p = finish (rs_p s)" by (simp add: finish_def Statistics_def Let_def)
  with assms(1) p show "base_inv p0 n (s\<lparr>rs_p := p\<rparr>)" by (auto simp: base_inv_def)
  show "done_chan p = ClosedChan" by (rule p)
qed

lemma loop_inv_stop:
  "loop_inv p0 s \<Longrightarrow> Stop (rs_p s) = Inr p \<Longrightarrow> done_chan (rs_p s) \<noteq> NilChan \<Longrightarrow> loop_inv p0 (s\<lparr>rs_p := p\<rparr>)"
  using Stop_Inr [of "rs_p s"]
  by (auto simp: loop_inv_def below_def split: gor.split loop_pc.split)

lemma run_stop:
  assumes "run_inv p0 n s"
  obtains p where "Stop (rs_p s) = Inr p" "run_inv p0 n (s\<lparr>rs_p := p\<rparr>)" "done_chan p = ClosedChan"
proof -
  have d: "done_chan (rs_p s) \<noteq> NilChan" using assms by (simp add: run_inv_def base_inv_def p_inv_def)
  from Stop_Inr [OF this] have "Stop (rs_p s) = Inr (rs_p s\<lparr>done_chan := ClosedChan\<rparr>)" .
  with base_inv_stop [of p0 n s] loop_inv_stop [of p0 s] assms d that show thesis by (auto simp: run_inv_def)
qed

lemma loop_inv_cong:
  "looper s = looper s' \<Longrightarrow> main s = main s' \<Longrightarrow> rs_p s = rs_p s' \<Longrightarrow> loop_inv p0 s = loop_inv p0 s'"
  unfolding loop_inv_def by (simp only:)

lemma run_inv_mono: "run_inv p0 n s \<Longrightarrow> run_inv p0 (Suc n) s"
  by (simp add: run_inv_def base_inv_mono)

text \<open>A step of the receiver or the watcher leaves the looper's part as it is.\<close>

lemma run_inv_hand_in:
  assumes "run_inv p0 n s"
  shows "run_inv p0 n (hand_in e s)"
proof -
  have "loop_inv p0 (hand_in e s) = loop_inv p0 s"
    by (rule loop_inv_cong) (simp_all add: hand_in_def split: option.split)
  moreover have "base_inv p0 n (hand_in e s) = base_inv p0 n s"
    by (simp add: hand_in_def base_inv_looper split: option.split)
  ultimately show ?thesis using assms by (simp add: run_inv_def)
qed

lemma run_inv_receiver:
  assumes "run_inv p0 n s" "\<not> gone r \<or> done_chan (rs_p s) = ClosedChan" "main s = Waiting \<or> r = Exited"
  shows "run_inv p0 n (s\<lparr>receiver := r\<rparr>)"
proof -
  have "loop_inv p0 (s\<lparr>receiver := r\<rparr>) = loop_inv p0 s" by (rule loop_inv_cong) simp_all
  moreover have "base_inv p0 n (s\<lparr>receiver := r\<rparr>)" using assms by (auto simp: run_inv_def base_inv_def)
  ultimately show ?thesis using assms(1) by (simp add: run_inv_def)
qed

lemma run_inv_watcher:
  assumes "run_inv p0 n s" "gone w" "done_chan (rs_p s) = ClosedChan" "main s = Waiting \<or> w = Exited"
  shows "run_inv p0 n (s\<lparr>watcher := w\<rparr>)"
proof -
  have "loop_inv p0 (s\<lparr>watcher := w\<rparr>) = loop_inv p0 s" by (rule loop_inv_cong) simp_all
  moreover have "base_inv p0 n (s\<lparr>watcher := w\<rparr>)" using assms by (cases w) (auto simp: run_inv_def base_inv_def)
  ultimately show ?thesis using assms(1) by (simp add: run_inv_def)
qed

lemma run_inv_fields:
  "run_inv p0 n (s\<lparr>rs_conn := c\<rparr>) = run_inv p0 n s"
  "run_inv p0 n (s\<lparr>rs_delay := d\<rparr>) = run_inv p0 n s"
  "run_inv p0 n (s\<lparr>ctx_err := e\<rparr>) = run_inv p0 n s"
  "run_inv p0 n (s\<lparr>group_err := e\<rparr>) = run_inv p0 n s"
  "run_inv p0 n (s\<lparr>interval_tick := b\<rparr>) = run_inv p0 n s"
  "run_inv p0 n (s\<lparr>timeout_tick := b\<rparr>) = run_inv p0 n s"
  using loop_inv_cong [of s "s\<lparr>rs_conn := c\<rparr>" p0] loop_inv_cong [of s "s\<lparr>rs_delay := d\<rparr>" p0]
    loop_inv_cong [of s "s\<lparr>ctx_err := e\<rparr>" p0] loop_inv_cong [of s "s\<lparr>group_err := e\<rparr>" p0]
    loop_inv_cong [of s "s\<lparr>interval_tick := b\<rparr>" p0] loop_inv_cong [of s "s\<lparr>timeout_tick := b\<rparr>" p0]
  by (simp_all add: run_inv_def base_inv_looper)

lemma waiting_receiver: "run_inv p0 n s \<Longrightarrow> receiver s \<noteq> Exited \<Longrightarrow> main s = Waiting \<and> \<not> rs_closed s"
  by (auto simp: run_inv_def base_inv_def)

lemma waiting_watcher: "run_inv p0 n s \<Longrightarrow> watcher s \<noteq> Exited \<Longrightarrow> main s = Waiting"
  by (auto simp: run_inv_def base_inv_def)

lemma run_inv_emit:
  assumes "run_inv p0 n s" "main s = Waiting" "\<not> is_recv_event e" "\<not> is_send_event e" "\<not> is_finish_event e"
  shows "run_inv p0 n (emit [e] s)"
proof -
  have "loop_inv p0 (emit [e] s) = loop_inv p0 s" by (rule loop_inv_cong) (simp_all add: emit_def)
  with assms base_inv_logs [of p0 n s "[e]"] show ?thesis by (simp add: run_inv_def)
qed

text \<open>The next delay of the receiver.\<close>

lemma run_inv_backoff:
  assumes "run_inv p0 n s" "receiver s \<noteq> Exited" "Int63n_law r" "backoff_ok b"
  shows "run_inv p0 n (with_go (Get r b) (\<lambda>(d, b). s\<lparr>rs_delay := d, rs_backoff := b, receiver := Running RTop\<rparr>) s)"
proof -
  obtain k where g: "Get r b = Inr (baseDelay b * k, b\<lparr>bo_c := min (bo_c b + 1) (maxExp b)\<rparr>)"
    using Get_step [OF assms(4,3)] by blast
  let ?b = "b\<lparr>bo_c := min (bo_c b + 1) (maxExp b)\<rparr>"
  let ?s = "s\<lparr>rs_delay := baseDelay b * k, rs_backoff := ?b\<rparr>"
  have "loop_inv p0 ?s = loop_inv p0 s" by (rule loop_inv_cong) simp_all
  moreover have "base_inv p0 n ?s" using assms(1) backoff_ok_step [OF assms(4)] by (simp add: run_inv_def base_inv_def)
  ultimately have "run_inv p0 n ?s" using assms(1) by (simp add: run_inv_def)
  from run_inv_receiver [OF this, of "Running RTop"] waiting_receiver [OF assms(1,2)] g
  show ?thesis by (simp add: with_go_def)
qed

lemma buffer_length:
  assumes "run_inv p0 n s" "run_ready p0"
  shows "0 \<le> getMessageLength os (rs_p s) + recv_offset os (rs_p s)"
    "i64 (getMessageLength os (rs_p s) + recv_offset os (rs_p s)) = getMessageLength os (rs_p s) + recv_offset os (rs_p s)"
proof -
  have "Size (rs_p s) = Size p0" using assms(1) by (simp add: run_inv_def base_inv_def p_inv_def)
  with assms(2) have z: "0 \<le> Size (rs_p s)" "Size (rs_p s) \<le> 2 ^ 52" by (simp_all add: run_ready_def)
  let ?n = "getMessageLength os (rs_p s) + recv_offset os (rs_p s)"
  have n: "0 \<le> ?n" "?n < 2 ^ 63"
    using message_length_bounds [OF z, of os] z by (auto simp: recv_offset_def)
  then show "0 \<le> ?n" "i64 ?n = ?n" by (auto intro!: i64_id simp: is_i64_def)
qed

lemma run_inv_recv_top:
  assumes "run_inv p0 n s" "receiver s = Running RTop" "run_ready p0"
  shows "run_inv p0 n (recv_top os s)"
proof -
  have "main s = Waiting" using waiting_receiver [OF assms(1)] assms(2) by simp
  moreover have "\<exists>b. make_bytes (i64 (getMessageLength os (rs_p s) + recv_offset os (rs_p s))) = Inr b"
    using buffer_length [OF assms(1,3), of os] by (simp add: make_bytes_def)
  ultimately show ?thesis using run_inv_receiver [OF assms(1)] by (auto simp: recv_top_def with_go_def)
qed

lemma run_inv_recv_read:
  assumes "run_inv p0 n s" "receiver s = Running (RRead b)" "Int63n_law r"
  shows "run_inv p0 n (recv_read pc r b s)"
proof -
  have m: "main s = Waiting" using waiting_receiver [OF assms(1)] assms(2) by simp
  have bo: "backoff_ok (rs_backoff s)" using assms(1) by (simp add: run_inv_def base_inv_def)
  obtain c b' k t a err where rd: "ReadFrom pc (rs_conn s) b = (c, b', k, t, a, err)" by (metis prod_cases6)
  have s: "run_inv p0 n (s\<lparr>rs_conn := c\<rparr>)" using assms(1) by (simp add: run_inv_fields)
  show ?thesis
  proof (cases err)
    case None
    then show ?thesis using run_inv_receiver [OF s, of "Running x" for x] m rd by (simp add: recv_read_def Let_def)
  next
    case (Some e)
    let ?s = "if OnRecvError (rs_p (s\<lparr>rs_conn := c\<rparr>)) then emit [CallOnRecvError e] (s\<lparr>rs_conn := c\<rparr>) else s\<lparr>rs_conn := c\<rparr>"
    have "run_inv p0 n ?s" "receiver ?s \<noteq> Exited" "main ?s = Waiting" "rs_backoff ?s = rs_backoff s"
      using run_inv_emit [OF s, of "CallOnRecvError e"] s m assms(2) by (simp_all add: emit_def)
    then show ?thesis
      using run_inv_backoff [of p0 n ?s r "rs_backoff s"] run_inv_receiver [of p0 n ?s "Stopping (Some e)"] bo assms(3) rd Some
      by (simp add: recv_read_def Let_def)
  qed
qed

lemma run_inv_go_step:
  assumes "go_step env pc s s'" "run_inv p0 n s" "run_ready p0" "int n < 2 ^ 63 - 1"
  shows "run_inv p0 (Suc n) s'"
  using assms(1)
proof cases
  case (watch_ctx e)
  from run_stop [OF assms(2)] obtain p where p: "Stop (rs_p s) = Inr p" "run_inv p0 n (s\<lparr>rs_p := p\<rparr>)" "done_chan p = ClosedChan" .
  with run_inv_watcher [OF p(2), of "Returned (Some e)"] waiting_watcher [OF assms(2)] watch_ctx
  show ?thesis by (simp add: with_go_def run_inv_mono)
next
  case watch_done
  then have "done_chan (rs_p s) = ClosedChan" by (simp add: chan_ready_def)
  with run_inv_watcher [OF assms(2), of "Returned None"] waiting_watcher [OF assms(2)] watch_done
  show ?thesis by (simp add: run_inv_mono)
next
  case (watch_exit err)
  then have "done_chan (rs_p s) = ClosedChan" using assms(2) by (simp add: run_inv_def base_inv_def)
  with run_inv_watcher [OF assms(2), of Exited] watch_exit show ?thesis by (simp add: run_inv_mono run_inv_hand_in)
next
  case (recv_init r)
  with run_inv_backoff [OF assms(2) _ recv_init(3) backoff_ok_new] show ?thesis
    by (simp add: Pinger_Run.recv_init_def run_inv_mono)
next
  case recv_top
  with run_inv_recv_top [OF assms(2) _ assms(3)] show ?thesis by (simp add: run_inv_mono)
next
  case (recv_arm b now)
  then have "main s = Waiting" using waiting_receiver [OF assms(2)] by simp
  with recv_arm run_inv_receiver [of p0 n "s\<lparr>rs_conn := c\<rparr>" x for c x] assms(2) show ?thesis
    by (auto simp: Pinger_Run.recv_arm_def run_inv_fields intro!: run_inv_mono split: prod.split option.split)
next
  case (recv_read b r)
  with run_inv_recv_read [OF assms(2)] show ?thesis by (simp add: run_inv_mono)
next
  case (recv_quit k)
  with run_inv_receiver [OF assms(2), of "Stopping None"] waiting_receiver [OF assms(2)] show ?thesis by (simp add: run_inv_mono)
next
  case (recv_push k)
  then have w: "main s = Waiting" "\<not> rs_closed s" using waiting_receiver [OF assms(2)] by simp_all
  let ?s = "s\<lparr>rs_queue := rs_queue s @ [k]\<rparr>"
  have "loop_inv p0 ?s = loop_inv p0 s" by (rule loop_inv_cong) simp_all
  moreover have "base_inv p0 n ?s" using assms(2) recv_push w by (simp add: run_inv_def base_inv_def)
  ultimately have "run_inv p0 n ?s" using assms(2) by (simp add: run_inv_def)
  with run_inv_receiver [OF this, of "Running RTop"] w recv_push show ?thesis
    by (simp add: Pinger_Run.recv_push_def run_inv_mono)
next
  case (recv_stop err)
  from run_stop [OF assms(2)] obtain p where p: "Stop (rs_p s) = Inr p" "run_inv p0 n (s\<lparr>rs_p := p\<rparr>)" "done_chan p = ClosedChan" .
  with run_inv_receiver [OF p(2), of "Returned err"] waiting_receiver [OF assms(2)] recv_stop
  show ?thesis by (simp add: with_go_def run_inv_mono)
next
  case (recv_exit err)
  then have "done_chan (rs_p s) = ClosedChan" using assms(2) by (simp add: run_inv_def base_inv_def)
  with run_inv_receiver [OF assms(2), of Exited] recv_exit show ?thesis by (simp add: run_inv_mono run_inv_hand_in)
next
  case (loop_init now)
  with run_inv_init [OF assms(2) _ assms(3)] show ?thesis by (simp add: run_inv_mono)
next
  case (loop_attempt first dst cur b new)
  with run_inv_attempt [OF assms(2) _ _ assms(3,4)] show ?thesis by simp
next
  case loop_done
  then have "base_inv p0 n s" "main s = Waiting" using assms(2) by (simp_all add: run_inv_def loop_inv_def)
  with run_inv_return loop_done(1) show ?thesis by (intro run_inv_mono) simp
next
  case loop_timeout
  then have "base_inv p0 n s" "main s = Waiting" using assms(2) by (simp_all add: run_inv_def loop_inv_def)
  with run_inv_return loop_timeout(1) show ?thesis by (intro run_inv_mono) simp
next
  case (loop_recv r rest now)
  with run_inv_recv [OF assms(2) _ _ assms(3)] show ?thesis by (simp add: run_inv_mono)
next
  case loop_recv_closed
  then have "main s = Waiting" using assms(2) by (simp add: run_inv_def loop_inv_def)
  with loop_recv_closed assms(2) show ?thesis by (simp add: run_inv_def base_inv_def)
next
  case (loop_interval now)
  with run_inv_interval [OF assms(2) _ assms(3)] show ?thesis by (simp add: run_inv_mono)
next
  case (loop_stop err)
  from run_stop [OF assms(2)] obtain p where p: "Stop (rs_p s) = Inr p" "run_inv p0 n (s\<lparr>rs_p := p\<rparr>)" "done_chan p = ClosedChan" .
  then have "run_inv p0 n (s\<lparr>rs_p := p, looper := Returned err\<rparr>)"
    using loop_stop by (simp add: run_inv_def loop_inv_def base_inv_looper)
  with loop_stop p(1) show ?thesis by (simp add: with_go_def run_inv_mono)
next
  case (loop_exit err)
  then have "run_inv p0 n (s\<lparr>looper := Exited\<rparr>)" using assms(2) by (simp add: run_inv_def loop_inv_def base_inv_looper)
  with loop_exit show ?thesis by (simp add: run_inv_mono run_inv_hand_in)
next
  case main_wait
  then have "run_inv p0 n (s\<lparr>main := Closing (group_err s)\<rparr>)"
    using assms(2) by (simp add: run_inv_def loop_inv_def base_inv_def)
  then have "run_inv p0 n s'" unfolding main_wait(1) run_inv_fields(3) .
  then show ?thesis by (rule run_inv_mono)
next
  case (main_close r)
  then have "run_inv p0 n (Pinger_Run.main_close r s)"
    using assms(2) by (cases "looper s") (simp_all add: run_inv_def loop_inv_def base_inv_def Pinger_Run.main_close_def split: loop_pc.splits)
  with main_close show ?thesis by (simp add: run_inv_mono)
next
  case (main_finish r)
  then have "run_inv p0 n (emit (finish (rs_p s)) (s\<lparr>main := Done r\<rparr>))"
    using assms(2) by (cases "looper s") (simp_all add: run_inv_def loop_inv_def base_inv_def emit_def finish_def split: loop_pc.splits)
  with main_finish show ?thesis by (simp add: run_inv_mono)
qed

lemma run_inv_world_step:
  assumes "world_step wd s s'" "run_inv p0 n s"
  shows "run_inv p0 (Suc n) s'"
  using assms(1)
proof cases
  case client_stop
  from run_stop [OF assms(2)] obtain p where "Stop (rs_p s) = Inr p" "run_inv p0 n (s\<lparr>rs_p := p\<rparr>)" .
  with client_stop show ?thesis by (simp add: with_go_def run_inv_mono)
qed (use assms(2) in \<open>simp_all add: run_inv_fields run_inv_mono\<close>)

lemma run_inv_begin:
  assumes "run_begin pc c p = Inr s" "run_ready p"
  shows "run_inv p 0 s"
proof -
  obtain u where u: "configured u p" using assms(2) by (auto simp: run_ready_def)
  then have z: "PacketsSent p = 0" "PacketsRecv p = 0" "done_chan p = OpenChan" by (simp_all add: configured_def)
  with tracked_configured(1) [OF u] have "p_inv p 0 p" by (simp add: p_inv_def)
  moreover from assms(1) obtain c' where "s = \<lparr>
         rs_p = p, rs_conn = c', rs_queue = [], rs_closed = False, ctx_err = None, group_err = None,
         watcher = Running (), receiver = Running RInit, rs_backoff = newExpBackoff 50000 11, rs_delay = 0,
         looper = Running LInit, timeout_on = False, timeout_tick = False, interval_on = False,
         interval_tick = False, main = Waiting, trace = (if OnSetup p then [CallOnSetup] else []), boom = None\<rparr>"
    by (auto simp: run_begin_def split: prod.splits option.splits)
  ultimately show ?thesis using z backoff_ok_new by (simp add: run_inv_def base_inv_def loop_inv_def)
qed

lemma reached_inv:
  assumes "reached env pc wd s0 n s" "run_begin pc c p = Inr s0" "run_ready p" "int n < 2 ^ 63"
  shows "run_inv p n s"
  using assms
proof (induction rule: reached.induct)
  case reached_0
  then show ?case by (simp add: run_inv_begin)
next
  case (reached_Suc n s s')
  then have "run_inv p n s" by simp
  with reached_Suc show ?case
    using run_inv_go_step [of env pc s s' p n] run_inv_world_step [of wd s s' p n] by (auto simp: run_step_def)
qed

end
