(* ===== verification/Run_Properties.thy ===== *)
theory Run_Properties
  imports Run_Invariant
begin

text \<open>
  What the invariant gives: progress of the goroutines, the end of a run that is stopped, the
  connection a run leaves as it was configured, the properties of \<^verbatim>\<open>run\<close>, and a short run for
  the witnesses.
\<close>

section \<open>Progress\<close>

text \<open>How far each part is from its end once the stop channel is closed.\<close>

fun recv_rank :: "recv_pc gor \<Rightarrow> nat" where
  "recv_rank (Running RInit) = 4"
| "recv_rank (Running RTop) = 3"
| "recv_rank (Running (RArm b)) = 5"
| "recv_rank (Running (RRead b)) = 4"
| "recv_rank (Running (RSend k)) = 3"
| "recv_rank (Stopping e) = 2"
| "recv_rank (Returned e) = 1"
| "recv_rank Exited = 0"

fun plain_rank :: "'a gor \<Rightarrow> nat" where
  "plain_rank (Running x) = 3"
| "plain_rank (Stopping e) = 2"
| "plain_rank (Returned e) = 1"
| "plain_rank Exited = 0"

fun main_rank :: "main_pc \<Rightarrow> nat" where
  "main_rank Waiting = 3"
| "main_rank (Closing r) = 2"
| "main_rank (Finishing r) = 1"
| "main_rank (Done r) = 0"

definition stop_rank :: "('u, 'c) run_state \<Rightarrow> nat" where
  "stop_rank s = recv_rank (receiver s) + plain_rank (watcher s) + plain_rank (looper s) + main_rank (main s)"

text \<open>The looper waits in its \<^verbatim>\<open>select\<close> or is past it.\<close>

definition at_select :: "('u, 'c) run_state \<Rightarrow> bool" where
  "at_select s \<longleftrightarrow> (\<forall>x. looper s = Running x \<longrightarrow> x = LSelect)"

lemma Stop_closed: "done_chan p = ClosedChan \<Longrightarrow> Stop p = Inr p"
  by (rule Stop_simps)

lemma Int63n_law_zero: "Int63n_law (\<lambda>n. 0)"
  by (simp add: Int63n_law_def)

lemma hand_in_fields [simp]:
  "rs_p (hand_in e s) = rs_p s" "receiver (hand_in e s) = receiver s" "watcher (hand_in e s) = watcher s"
  "looper (hand_in e s) = looper s" "main (hand_in e s) = main s"
  by (simp_all add: hand_in_def split: option.split)

text \<open>The receiver moves towards its end.\<close>

lemma receiver_progress:
  assumes i: "run_inv p0 n s" "receiver s \<noteq> Exited" and d: "done_chan (rs_p s) = ClosedChan"
  shows "\<exists>s'. go_step env pc s s' \<and> recv_rank (receiver s') < recv_rank (receiver s) \<and> watcher s' = watcher s \<and>
    looper s' = looper s \<and> main s' = main s \<and> rs_p s' = rs_p s"
proof (cases "receiver s")
  case (Running x)
  show ?thesis
  proof (cases x)
    case RInit
    show ?thesis using Get_step [OF backoff_ok_new Int63n_law_zero]
      by - (rule exI, rule conjI, rule go_step.recv_init [OF Running [unfolded RInit] Int63n_law_zero],
        auto simp: Running RInit Pinger_Run.recv_init_def with_go_def)
  next
    case RTop
    show ?thesis using d
      by - (rule exI, rule conjI, rule go_step.recv_top [OF Running [unfolded RTop]],
        auto simp: Running RTop Pinger_Run.recv_top_def chan_ready_def)
  next
    case (RArm b)
    show ?thesis
      by (rule exI, rule conjI, rule go_step.recv_arm [OF Running [unfolded RArm], of env pc 0])
        (auto simp: Running RArm Pinger_Run.recv_arm_def split: prod.splits option.splits)
  next
    case (RRead b)
    have bo: "backoff_ok (rs_backoff s)" using i(1) by (simp add: run_inv_def base_inv_def)
    show ?thesis using Get_step [OF bo Int63n_law_zero]
      by - (rule exI, rule conjI, rule go_step.recv_read [OF Running [unfolded RRead] Int63n_law_zero, of env pc],
        auto simp: Running RRead Pinger_Run.recv_read_def with_go_def emit_def Let_def split: prod.splits option.splits)
  next
    case (RSend k)
    show ?thesis using d
      by - (rule exI, rule conjI, rule go_step.recv_quit [OF Running [unfolded RSend], of env pc],
        auto simp: Running RSend chan_ready_def)
  qed
next
  case (Stopping e)
  show ?thesis using d
    by - (rule exI, rule conjI, rule go_step.recv_stop [OF Stopping, of env pc],
      auto simp: Stopping with_go_def Stop_closed)
next
  case (Returned e)
  show ?thesis
    by (rule exI, rule conjI, rule go_step.recv_exit [OF Returned, of env pc]) (auto simp: Returned)
qed (use i in simp)

text \<open>Once the stop channel is closed and the looper does not write, the run can come nearer to its end.\<close>

lemma stop_progress:
  assumes i: "run_inv p0 n s" "at_select s" and d: "done_chan (rs_p s) = ClosedChan" and m: "\<And>r. main s \<noteq> Done r"
  shows "\<exists>s'. go_step env pc s s' \<and> stop_rank s' < stop_rank s \<and> at_select s' \<and> done_chan (rs_p s') = ClosedChan"
proof (cases "main s = Waiting")
  case False
  then consider r where "main s = Closing r" | r where "main s = Finishing r" using m by (cases "main s") auto
  then show ?thesis
  proof cases
    case 1
    then have "\<not> rs_closed s" using i(1) by (auto simp: run_inv_def base_inv_def)
    with 1 i(2) d show ?thesis
      by - (rule exI, rule conjI, rule go_step.main_close [OF 1],
        auto simp: stop_rank_def at_select_def Pinger_Run.main_close_def)
  next
    case 2
    with i(2) d show ?thesis
      by - (rule exI, rule conjI, rule go_step.main_finish [OF 2], auto simp: stop_rank_def at_select_def emit_def)
  qed
next
  case True
  consider "receiver s \<noteq> Exited" | "watcher s = Running ()" | e where "watcher s = Returned e" | "looper s = Running LSelect"
    | e where "looper s = Stopping e" | e where "looper s = Returned e"
    | "receiver s = Exited" "watcher s = Exited" "looper s = Exited"
    using i by (cases "watcher s"; cases "looper s") (auto simp: run_inv_def base_inv_def at_select_def)
  then show ?thesis
  proof cases
    case 1
    with receiver_progress [OF i(1) _ d, of env pc] i(2) d show ?thesis by (fastforce simp: stop_rank_def at_select_def)
  next
    case 2
    then show ?thesis using i(2) d
      by - (rule exI, rule conjI, rule go_step.watch_done [OF 2], auto simp: stop_rank_def at_select_def chan_ready_def)
  next
    case (3 e)
    then show ?thesis using i(2) d
      by - (rule exI, rule conjI, rule go_step.watch_exit [OF 3], auto simp: stop_rank_def at_select_def)
  next
    case 4
    then show ?thesis using i(2) d
      by - (rule exI, rule conjI, rule go_step.loop_done [OF 4],
        auto simp: stop_rank_def at_select_def chan_ready_def loop_return_def stop_interval_def)
  next
    case (5 e)
    then show ?thesis using i(2) d
      by - (rule exI, rule conjI, rule go_step.loop_stop [OF 5], auto simp: stop_rank_def at_select_def with_go_def Stop_closed)
  next
    case (6 e)
    then show ?thesis using i(2) d
      by - (rule exI, rule conjI, rule go_step.loop_exit [OF 6], auto simp: stop_rank_def at_select_def)
  next
    case 7
    then show ?thesis using True d
      by - (rule exI, rule conjI, rule go_step.main_wait [OF True 7(2,1,3)], auto simp: stop_rank_def at_select_def)
  qed
qed

lemma stop_completes:
  assumes "run_inv p0 n s" "at_select s" "done_chan (rs_p s) = ClosedChan" "run_ready p0" "int n + int (stop_rank s) < 2 ^ 63 - 1"
  shows "\<exists>s' r. (go_step env pc)\<^sup>*\<^sup>* s s' \<and> main s' = Done r"
  using assms
proof (induction "stop_rank s" arbitrary: s n rule: less_induct)
  case less
  show ?case
  proof (cases "\<exists>r. main s = Done r")
    case False
    then obtain s' where s': "go_step env pc s s'" "stop_rank s' < stop_rank s" "at_select s'" "done_chan (rs_p s') = ClosedChan"
      using stop_progress [OF less.prems(1-3), of env pc] by blast
    have "run_inv p0 (Suc n) s'" using less.prems s' by (intro run_inv_go_step [OF s'(1)]) auto
    from less.hyps [OF s'(2) this s'(3,4)] less.prems s'(2) obtain s'' r where
      "(go_step env pc)\<^sup>*\<^sup>* s' s''" "main s'' = Done r" by auto
    with s'(1) show ?thesis by (meson converse_rtranclp_into_rtranclp)
  qed blast
qed

text \<open>Without a stop too, some goroutine can always go on: a full channel has a reader.\<close>

lemma some_progress:
  assumes i: "run_inv p0 n s" and m: "\<And>r. main s \<noteq> Done r" and new: "\<exists>new. new \<notin> set (trackerUUIDs (rs_p s))"
  shows "\<exists>s'. go_step env pc s s'"
proof (cases "at_select s \<and> done_chan (rs_p s) = ClosedChan")
  case True
  with stop_progress [OF i, of env pc] m show ?thesis by blast
next
  case False
  show ?thesis
  proof (cases "at_select s")
    case sel: False
    then consider "looper s = Running LInit" | f d c b where "looper s = Running (LSend f d c b)"
      by (auto simp: at_select_def) (metis loop_pc.exhaust)
    then show ?thesis using new by cases (blast intro: go_step.loop_init go_step.loop_attempt)+
  next
    case True
    with False have d: "done_chan (rs_p s) \<noteq> ClosedChan" by simp
    then have g: "\<not> gone (receiver s)" "looper s \<noteq> Exited" "\<And>e. looper s \<noteq> Returned e"
      using i by (auto simp: run_inv_def base_inv_def loop_inv_def)
    show ?thesis
    proof (cases "receiver s")
      case (Running x)
      show ?thesis
      proof (cases x)
        case (RSend k)
        show ?thesis
        proof (cases "length (rs_queue s) < recv_cap")
          case False
          then obtain r rest where q: "rs_queue s = r # rest" by (cases "rs_queue s") (auto simp: recv_cap_def)
          from True g consider "looper s = Running LSelect" | e where "looper s = Stopping e"
            by (cases "looper s") (auto simp: at_select_def)
          then show ?thesis using q by cases (blast intro: go_step.loop_recv go_step.loop_stop)+
        qed (use Running RSend in \<open>blast intro: go_step.recv_push\<close>)
      qed (use Running Int63n_law_zero in \<open>blast intro: go_step.recv_init go_step.recv_top go_step.recv_arm go_step.recv_read\<close>)+
    qed (use g in \<open>auto intro: go_step.recv_stop\<close>)
  qed
qed

section \<open>The connection during a run\<close>

lemma conn_loop_fields [simp]:
  "rs_conn (loop_return e s) = rs_conn s" "rs_conn (loop_again s) = rs_conn s" "rs_conn (emit evs s) = rs_conn s"
  "rs_conn (hand_in e s) = rs_conn s" "rs_conn (send_failed first x s) = rs_conn s" "rs_conn (stop_interval s) = rs_conn s"
  "rs_conn (log_fatal f x s) = rs_conn s"
  by (simp_all add: loop_return_def loop_again_def emit_def hand_in_def send_failed_def stop_interval_def log_fatal_def
      split: option.split)

lemma conn_send_begin [simp]: "rs_conn (loop_send_begin env pc now first s) = rs_conn s"
  by (simp add: loop_send_begin_def with_go_def split: sum.split prod.split)

context conn_inv begin

lemma inv_attempt:
  assumes "I c"
  shows "case send_attempt env pc b dst new cur p c of
     Retry c' evs \<Rightarrow> I c'
   | Returns err c' q evs \<Rightarrow> I c'
   | Panics pn \<Rightarrow> True"
  using assms send_attempt_outcome [of env pc b dst c p new cur]
  by (cases "send_attempt env pc b dst new cur p c") (simp_all add: inv_after_failure inv_calls)

lemma inv_go_step:
  assumes "go_step env pc s s'" "I (rs_conn s)"
  shows "I (rs_conn s')"
  using assms(1)
proof cases
  case (recv_arm b now)
  then show ?thesis using inv_calls(3) [OF assms(2), of "now + rs_delay s"] assms(2)
    by (auto simp: Pinger_Run.recv_arm_def split: prod.split option.split)
next
  case (recv_read b r)
  then show ?thesis using inv_calls(1) [OF assms(2), of b] assms(2)
    by (auto simp: Pinger_Run.recv_read_def Let_def with_go_def split: prod.split option.split sum.split)
next
  case (loop_attempt first dst cur b new)
  then show ?thesis using inv_attempt [OF assms(2), of env b dst new cur "rs_p s"] assms(2)
    by (auto simp: Pinger_Run.loop_attempt_def Let_def split: attempt.splits option.split)
qed (use assms(2) in \<open>auto simp: with_go_def Pinger_Run.recv_init_def Pinger_Run.recv_top_def Pinger_Run.recv_push_def
    Pinger_Run.loop_init_def Pinger_Run.loop_recv_def Pinger_Run.loop_interval_def Pinger_Run.main_close_def Let_def
    split: sum.split prod.split option.split\<close>)

lemma inv_reached:
  assumes "reached env pc wd s0 n s" "\<And>c c'. traffic wd c c' \<Longrightarrow> I c \<Longrightarrow> I c'" "I (rs_conn s0)"
  shows "I (rs_conn s)"
  using assms(1)
proof (induction rule: reached.induct)
  case (reached_Suc n s s')
  have "I (rs_conn s')" if "world_step wd s s'"
    using that by cases (use assms(2) reached_Suc in \<open>auto simp: with_go_def split: sum.split\<close>)
  with reached_Suc inv_go_step [of env s s'] show ?case by (auto simp: run_step_def)
qed (rule assms(3))

end

section \<open>Properties\<close>

text \<open>The invariant, fact by fact.\<close>

lemma run_invD:
  assumes "run_inv p0 n s"
  shows "boom s = None" "length (rs_queue s) \<le> recv_cap" "rs_closed s \<longleftrightarrow> (\<exists>r. main s = Finishing r \<or> main s = Done r)"
    "main s \<noteq> Waiting \<Longrightarrow> watcher s = Exited" "main s \<noteq> Waiting \<Longrightarrow> receiver s = Exited"
    "gone (watcher s) \<or> gone (receiver s) \<Longrightarrow> done_chan (rs_p s) = ClosedChan"
    "p_inv p0 n (rs_p s)" "tracked (rs_p s)"
    "0 < Count p0 \<Longrightarrow> PacketsSent (rs_p s) \<le> Count p0"
    "count_events is_recv_event (trace s) = (if OnRecv p0 then PacketsRecv (rs_p s) else 0)"
    "count_events is_send_event (trace s) = (if OnSend p0 then PacketsSent (rs_p s) else 0)"
  using assms unfolding run_inv_def base_inv_def p_inv_def by blast+

lemma run_inv_looper:
  assumes "run_inv p0 n s"
  shows "main s \<noteq> Waiting \<Longrightarrow> looper s = Exited" "gone (looper s) \<Longrightarrow> done_chan (rs_p s) = ClosedChan"
  using assms by (cases "looper s"; auto simp: run_inv_def loop_inv_def split: loop_pc.splits)+

text \<open>\<^verbatim>\<open>OnFinish\<close> and the counters in a reachable state.\<close>

lemma reached_finish:
  assumes "run_begin pc c p = Inr s0" "run_ready p" "reached env pc wd s0 n s" "int n < 2 ^ 63"
  shows "(\<forall>r. main s \<noteq> Done r) \<and> count_events is_finish_event (trace s) = 0 \<or>
    (\<exists>r evs. main s = Done r \<and> trace s = evs @ (if OnFinish p then [CallOnFinish (Statistics (rs_p s))] else []) \<and>
       count_events is_finish_event evs = 0 \<and> done_chan (rs_p s) = ClosedChan)"
proof -
  have i: "run_inv p n s" using reached_inv [OF assms(3,1,2,4)] .
  then have "main s \<noteq> Waiting \<longrightarrow> done_chan (rs_p s) = ClosedChan" by (auto simp: run_inv_def base_inv_def)
  moreover have "finish (rs_p s) = (if OnFinish p then [CallOnFinish (Statistics (rs_p s))] else [])"
    using run_invD(7) [OF i] by (simp add: finish_def p_inv_def)
  ultimately show ?thesis using i by (cases "main s") (auto simp: run_inv_def base_inv_def)
qed

lemma reached_counts:
  assumes "run_begin pc c p = Inr s0" "run_ready p" "reached env pc wd s0 n s" "int n < 2 ^ 63"
  shows "(0 < Count p \<longrightarrow> PacketsSent (rs_p s) \<le> Count p) \<and> 0 \<le> PacketsRecv (rs_p s) \<and>
    PacketsSent (rs_p s) = PacketsRecv (rs_p s) + int (card (pending_keys (rs_p s))) \<and>
    count_events is_send_event (trace s) = (if OnSend p then PacketsSent (rs_p s) else 0) \<and>
    count_events is_recv_event (trace s) = (if OnRecv p then PacketsRecv (rs_p s) else 0)"
proof -
  note f = run_invD [OF reached_inv [OF assms(3,1,2,4)]]
  have "0 \<le> PacketsRecv (rs_p s)" "PacketsSent (rs_p s) = PacketsRecv (rs_p s) + int (card (pending_keys (rs_p s)))"
    using f(8) by (simp_all add: tracked_def)
  with f(9,10,11) show ?thesis by blast
qed

text \<open>
  C6. No schedule of a run goes wrong: in every reachable state nothing has panicked (no send on
  a closed channel, no second close, no nil packet, no division by zero, no bad buffer size), the
  channel \<^verbatim>\<open>recv\<close> holds at most five packets, it is closed only after all three goroutines are
  gone, and a goroutine is gone only after the stop channel is closed. This is for a pinger that is
  ready to run (\<open>run_ready\<close>): fresh, its address resolved, with a logger, positive \<^verbatim>\<open>Timeout\<close> and \<^verbatim>\<open>Interval\<close>
  and a \<^verbatim>\<open>Size\<close> of 0 to 2 to the 52; without them there are panics (\<open>Ping_Command\<close> has one).
\<close>

theorem run_safe:
  assumes "run_begin pc c p = Inr s0" "run_ready p" "reached env pc wd s0 n s" "int n < 2 ^ 63"
  shows "boom s = None \<and> length (rs_queue s) \<le> 5 \<and>
    (rs_closed s \<longrightarrow> watcher s = Exited \<and> receiver s = Exited \<and> looper s = Exited) \<and>
    (gone (watcher s) \<or> gone (receiver s) \<or> gone (looper s) \<longrightarrow> done_chan (rs_p s) = ClosedChan)"
proof -
  have i: "run_inv p n s" using reached_inv [OF assms(3,1,2,4)] .
  note f = run_invD [OF i] run_inv_looper [OF i]
  have "length (rs_queue s) \<le> 5" "rs_closed s \<Longrightarrow> main s \<noteq> Waiting" using f(2,3) by (auto simp add: recv_cap_def)
  with f(1,4,5,6,12,13) show ?thesis by blast
qed

text \<open>
  C8. If \<^verbatim>\<open>OnFinish\<close> is set it is called exactly once, as the last thing of a run, with the statistics
  the pinger ends with, and if it is not it is not called; before the run is done it has not been
  called. A run that is done has stopped the pinger. The pinger is one that is ready to run (\<open>run_ready\<close>).
\<close>

theorem run_finish_once:
  assumes "run_begin pc c p = Inr s0" "run_ready p" "reached env pc wd s0 n s" "int n < 2 ^ 63"
  shows "(\<forall>r. main s \<noteq> Done r) \<and> count_events is_finish_event (trace s) = 0 \<or>
    (\<exists>r evs. main s = Done r \<and> trace s = evs @ (if OnFinish p then [CallOnFinish (Statistics (rs_p s))] else []) \<and>
       count_events is_finish_event evs = 0 \<and> done_chan (rs_p s) = ClosedChan)"
  using assms by (rule reached_finish)

text \<open>
  C10. The counters during a run: with a positive \<^verbatim>\<open>Count\<close> never more than \<^verbatim>\<open>Count\<close> packets are
  sent; never more are received than sent; the difference is the number of requests in flight; and
  \<^verbatim>\<open>OnSend\<close> and \<^verbatim>\<open>OnRecv\<close> are called once for each packet counted.
\<close>

theorem run_counts:
  assumes "run_begin pc c p = Inr s0" "run_ready p" "reached env pc wd s0 n s" "int n < 2 ^ 63"
  shows "(0 < Count p \<longrightarrow> PacketsSent (rs_p s) \<le> Count p) \<and> 0 \<le> PacketsRecv (rs_p s) \<and>
    PacketsSent (rs_p s) = PacketsRecv (rs_p s) + int (card (pending_keys (rs_p s))) \<and>
    count_events is_send_event (trace s) = (if OnSend p then PacketsSent (rs_p s) else 0) \<and>
    count_events is_recv_event (trace s) = (if OnRecv p then PacketsRecv (rs_p s) else 0)"
  using assms by (rule reached_counts)

text \<open>
  C7. A run is never stuck: as long as it is not done and there are UUIDs left to draw, one of
  its goroutines can take a step, whatever the network does. In particular the receiver never
  waits on a full channel that nobody reads.
\<close>

theorem run_no_deadlock:
  assumes "run_begin pc c p = Inr s0" "run_ready p" "reached env pc wd s0 n s" "int n < 2 ^ 63"
    and "\<And>r. main s \<noteq> Done r" "new \<notin> set (trackerUUIDs (rs_p s))"
  shows "\<exists>s'. go_step env pc s s'"
  using some_progress [OF reached_inv [OF assms(3,1,2,4)] assms(5)] assms(6) by blast

text \<open>
  C9. \<^verbatim>\<open>Stop\<close> ends a run: once the stop channel is closed and the looper is not inside
  \<^verbatim>\<open>sendICMP\<close>, the goroutines can finish without anything happening outside, and the run
  returns. (Inside \<^verbatim>\<open>sendICMP\<close> the stop channel is not looked at.)
\<close>

theorem run_stops:
  assumes "run_begin pc c p = Inr s0" "run_ready p" "reached env pc wd s0 n s" "int n < 2 ^ 62"
    and "done_chan (rs_p s) = ClosedChan" "at_select s"
  shows "\<exists>s' r. (go_step env pc)\<^sup>*\<^sup>* s s' \<and> main s' = Done r"
proof -
  have "recv_rank (receiver s) \<le> 5" by (cases "receiver s" rule: recv_rank.cases) simp_all
  moreover have "plain_rank (watcher s) \<le> 3" "plain_rank (looper s) \<le> 3"
    by (cases "watcher s"; simp) (cases "looper s"; simp)
  moreover have "main_rank (main s) \<le> 3" by (cases "main s") simp_all
  ultimately have "stop_rank s \<le> 14" unfolding stop_rank_def by linarith
  then show ?thesis using stop_completes [OF reached_inv [OF assms(3,1,2)] assms(6,5,2)] assms(4) by simp
qed

text \<open>
  C36. What the connection was configured with (TTL, interface, source address) is what every
  datagram of the run goes out with: no step of a run changes it on either kind of connection, if
  the network does not.
\<close>

theorem run_keeps_config:
  assumes "reached env (if v then icmpv4Conn_methods os xn else icmpV6Conn_methods os xn) wd s0 n s"
    and "\<And>c c'. traffic wd c c' \<Longrightarrow> conn_config c' = conn_config c"
  shows "conn_config (rs_conn s) = conn_config (rs_conn s0)"
  using v4.kept.inv_reached [of env os xn wd s0 n s "conn_config (rs_conn s0)"]
    v6.kept.inv_reached [of env os xn wd s0 n s "conn_config (rs_conn s0)"] assms
  by (cases v) simp_all

text \<open>The longest IP header a system may leave in front of a reply it hands to \<^verbatim>\<open>ReadFrom\<close>.\<close>

definition header_left :: "goos \<Rightarrow> 'u pinger \<Rightarrow> nat" where
  "header_left os p = (case os of
       Windows \<Rightarrow> if ipv4 p then 20 else 40
     | Darwin \<Rightarrow> if ipv4 p \<and> \<not> Privileged p then 20 else 0
     | _ \<Rightarrow> 0)"

text \<open>
  C37. The buffer the receiver reads into holds the reply: whenever \<^verbatim>\<open>recvICMP\<close> is at the top of its loop
  and the pinger is not stopped, it goes on to read into a buffer in which the echo of a request \<^verbatim>\<open>sendICMP\<close>
  builds fits, behind the IP header that macOS leaves for an unprivileged IPv4 socket and that Windows may
  leave. The length is given exactly for every system. (A size of 24 to 2 to the 52, an identifier and
  a sequence number of 16 bits, codecs that satisfy their laws.)
\<close>

theorem reply_fits_buffer:
  assumes "icmp_laws env" "uuid_laws env" "uuid_Marshal env u = Inr enc"
    and "24 \<le> Size (rs_p s)" "Size (rs_p s) \<le> 2 ^ 52" "0 \<le> ident (rs_p s)" "ident (rs_p s) \<le> 65535"
    and "0 \<le> sequence (rs_p s)" "sequence (rs_p s) \<le> 65535" "done_chan (rs_p s) \<noteq> ClosedChan"
    and "icmp_Marshal env \<lparr>msg_Type = reply_type (rs_p s), msg_Code = 0,
      msg_Body = Echo (ident (rs_p s)) (sequence (rs_p s)) (send_payload (rs_p s) now enc)\<rparr> = Inr m"
    and "length h \<le> header_left (GOOS env) (rs_p s)"
  shows "\<exists>buf. recv_top (GOOS env) s = s\<lparr>receiver := Running (RArm buf)\<rparr> \<and> length (h @ m) \<le> length buf \<and>
    int (length buf) = (if GOOS env = Windows then max (Size (rs_p s) + (if ipv4 (rs_p s) then 56 else 96)) 2048
      else Size (rs_p s) + 8 + (if GOOS env = Darwin \<and> ipv4 (rs_p s) \<and> \<not> Privileged (rs_p s) then 20 else 0))"
proof -
  let ?p = "rs_p s"
  let ?n = "getMessageLength (GOOS env) ?p + recv_offset (GOOS env) ?p"
  have "length enc = 16" using uuid_lawsE [OF assms(2), of u] assms(3) by auto
  then have d: "int (length (send_payload ?p now enc)) = Size ?p" using length_send_payload [of enc ?p now] assms(4,5) by simp
  have "reply_type ?p \<in> echo_types" by (simp add: reply_type_def echo_types_def)
  then obtain e where "length e = 8" "icmp_Marshal env \<lparr>msg_Type = reply_type ?p, msg_Code = 0,
      msg_Body = Echo (ident ?p) (sequence ?p) (send_payload ?p now enc)\<rparr> = Inr (e @ send_payload ?p now enc)"
    using icmp_lawsE [OF assms(1) _ assms(6-9)] by metis
  with assms(11) d have m: "int (length m) = Size ?p + 8" by auto
  have n: "?n = (if GOOS env = Windows then max (Size ?p + (if ipv4 ?p then 56 else 96)) 2048
      else Size ?p + 8 + (if GOOS env = Darwin \<and> ipv4 ?p \<and> \<not> Privileged ?p then 20 else 0))"
    using message_length_eq [of ?p "GOOS env"] assms(4,5) by (simp add: recv_offset_def)
  then have z: "0 \<le> ?n" "?n < 2 ^ 63" using assms(4,5) by (auto split: if_splits)
  then have "i64 ?n = ?n" by (intro i64_id) (simp add: is_i64_def)
  with z(1) assms(10) have "recv_top (GOOS env) s = s\<lparr>receiver := Running (RArm (replicate (nat ?n) 0))\<rparr>"
    by (simp add: recv_top_def chan_ready_def make_bytes_def with_go_def)
  moreover have "int (length (h @ m)) \<le> ?n"
    using m n assms(4,12) by (auto simp: header_left_def split: goos.splits if_splits)
  ultimately show ?thesis using n z(1) by (intro exI [of _ "replicate (nat ?n) 0"]) auto
qed

section \<open>Finishing\<close>

lemma reached_go:
  "reached env pc wd s0 n s \<Longrightarrow> boom s = None \<Longrightarrow> go_step env pc s s' \<Longrightarrow> reached env pc wd s0 (Suc n) s'"
  by (erule reached_Suc) (simp add: run_step_def)

lemma reached_world:
  "reached env pc wd s0 n s \<Longrightarrow> boom s = None \<Longrightarrow> world_step wd s s' \<Longrightarrow> reached env pc wd s0 (Suc n) s'"
  by (erule reached_Suc) (simp add: run_step_def)

text \<open>
  The schedule in which the looper, which is about to stop the pinger, the receiver, the watcher and
  the caller finish one after the other.
\<close>

lemma finishing:
  assumes r: "reached env pc wd s0 n s" and b: "boom s = None" "rs_closed s = False" "main s = Waiting"
    and d: "done_chan (rs_p s) \<noteq> NilChan" and l: "looper s = Stopping None"
    and v: "receiver s = Running RTop" and w: "watcher s = Running ()"
  shows "\<exists>s'. reached env pc wd s0 (n + 10) s' \<and> main s' = Done (group_err s) \<and>
    rs_p s' = rs_p s\<lparr>done_chan := ClosedChan\<rparr> \<and> rs_conn s' = rs_conn s"
proof -
  have stop: "Stop (rs_p s) = Inr (rs_p s\<lparr>done_chan := ClosedChan\<rparr>)" using d by (rule Stop_Inr)
  let ?s2 = "s\<lparr>rs_p := rs_p s\<lparr>done_chan := ClosedChan\<rparr>, looper := Returned None\<rparr>"
  let ?s3 = "?s2\<lparr>looper := Exited\<rparr>"
  let ?s4 = "?s3\<lparr>receiver := Stopping None\<rparr>"
  let ?s5 = "?s4\<lparr>rs_p := rs_p s\<lparr>done_chan := ClosedChan\<rparr>, receiver := Returned None\<rparr>"
  let ?s6 = "?s5\<lparr>receiver := Exited\<rparr>"
  let ?s7 = "?s6\<lparr>watcher := Returned None\<rparr>"
  let ?s8 = "?s7\<lparr>watcher := Exited\<rparr>"
  have 2: "reached env pc wd s0 (Suc n) ?s2"
    using go_step.loop_stop [OF l, of env pc] stop by (intro reached_go [OF r]) (simp_all add: b with_go_def)
  have 3: "reached env pc wd s0 (Suc (Suc n)) ?s3"
    using go_step.loop_exit [of ?s2 None env pc] by (intro reached_go [OF 2]) (simp_all add: b hand_in_def)
  have 4: "reached env pc wd s0 (Suc (Suc (Suc n))) ?s4"
    using go_step.recv_top [of ?s3 env pc] v
    by (intro reached_go [OF 3]) (simp_all add: b Pinger_Run.recv_top_def chan_ready_def)
  have 5: "reached env pc wd s0 (n + 4) ?s5"
    using reached_go [OF 4, of ?s5] go_step.recv_stop [of ?s4 None env pc]
    by (simp add: b with_go_def Stop_simps eval_nat_numeral)
  have 6: "reached env pc wd s0 (n + 5) ?s6"
    using reached_go [OF 5, of ?s6] go_step.recv_exit [of ?s5 None env pc]
    by (simp add: b hand_in_def eval_nat_numeral)
  have 7: "reached env pc wd s0 (n + 6) ?s7"
    using reached_go [OF 6, of ?s7] go_step.watch_done [of ?s6 env pc] w
    by (simp add: b chan_ready_def eval_nat_numeral)
  have 8: "reached env pc wd s0 (n + 7) ?s8"
    using reached_go [OF 7, of ?s8] go_step.watch_exit [of ?s7 None env pc]
    by (simp add: b hand_in_def eval_nat_numeral)
  let ?s9 = "?s8\<lparr>main := Closing (group_err s),
    ctx_err := (case ctx_err s of None \<Rightarrow> Some ContextCanceled | Some e \<Rightarrow> Some e)\<rparr>"
  let ?s10 = "?s9\<lparr>rs_closed := True, main := Finishing (group_err s)\<rparr>"
  have 9: "reached env pc wd s0 (n + 8) ?s9"
    using reached_go [OF 8, of ?s9] go_step.main_wait [of ?s8 env pc] b
    by (simp add: eval_nat_numeral)
  have 10: "reached env pc wd s0 (n + 9) ?s10"
    using reached_go [OF 9, of ?s10] go_step.main_close [of ?s9 "group_err s" env pc] b
    by (simp add: Pinger_Run.main_close_def eval_nat_numeral)
  have "reached env pc wd s0 (n + 10) (emit (finish (rs_p ?s10)) (?s10\<lparr>main := Done (group_err s)\<rparr>))"
    using reached_go [OF 10, of "emit (finish (rs_p ?s10)) (?s10\<lparr>main := Done (group_err s)\<rparr>)"]
      go_step.main_finish [of ?s10 "group_err s" env pc] b
    by (simp add: eval_nat_numeral)
  then show ?thesis by - (rule exI, rule conjI, assumption, simp add: emit_def)
qed

section \<open>Witnesses\<close>

text \<open>A run that has sent its first request when a client stops it.\<close>

definition sample_start :: "(byte, nat) run_state" where
  "sample_start = \<lparr>rs_p = sample_pinger, rs_conn = 0, rs_queue = [], rs_closed = False, ctx_err = None, group_err = None,
     watcher = Running (), receiver = Running RInit, rs_backoff = newExpBackoff 50000 11, rs_delay = 0,
     looper = Running LInit, timeout_on = False, timeout_tick = False, interval_on = False,
     interval_tick = False, main = Waiting, trace = [], boom = None\<rparr>"

abbreviation good_conn :: "nat packet_conn" where
  "good_conn \<equiv> sample_conn (\<lambda>k. None)"

lemma sample_begin: "run_begin good_conn 0 sample_pinger = Inr sample_start"
  by (simp add: run_begin_def sample_conn_def sample_start_def sample_pinger_def New_def)

lemma sample_ready: "run_ready sample_pinger"
  using sample_configured sample_logger
  by (auto simp: run_ready_def sample_pinger_def New_def)

definition sample_sending :: "(byte, nat) run_state" where
  "sample_sending = sample_start\<lparr>timeout_on := True, interval_on := True,
     looper := Running (LSend True sample_dst 0 sample_request)\<rparr>"

lemma sample_sending: "loop_init (sample_env Linux) good_conn 5 sample_start = sample_sending"
proof -
  have "send_begin (sample_env Linux) good_conn 5 0 sample_pinger = Inr (Inr (sample_dst, 0, sample_request))"
    using sample_request [of Linux "\<lambda>k. None" 0] by (auto simp: request_def send_begin_def Let_def)
  then show ?thesis
    by (simp add: Pinger_Run.loop_init_def loop_send_begin_def with_go_def sample_start_def sample_sending_def)
      (simp add: sample_pinger_def New_def)
qed

definition sample_sent :: "byte pinger" where
  "sample_sent = sample_pinger\<lparr>PacketsSent := 1, sequence := 1, awaitingSequences := [0 \<mapsto> {0}]\<rparr>"

definition sample_stopped :: "(byte, nat) run_state" where
  "sample_stopped = sample_start\<lparr>timeout_on := True, interval_on := True, rs_conn := 1,
     rs_p := sample_sent\<lparr>done_chan := ClosedChan\<rparr>, looper := Running LSelect\<rparr>"

lemma sample_attempted:
  "loop_attempt (sample_env Linux) good_conn 1 True sample_dst 0 sample_request sample_sending =
   sample_start\<lparr>timeout_on := True, interval_on := True, rs_conn := 1, rs_p := sample_sent, looper := Running LSelect\<rparr>"
proof -
  have "send_attempt (sample_env Linux) good_conn sample_request sample_dst 1 0 sample_pinger 0 = Returns None 1 sample_sent []"
    by (simp add: send_attempt_def sample_conn_def record_sent_def sample_sent_def Let_def)
      (simp add: sample_pinger_def New_def i64_def)
  then show ?thesis
    by (simp add: Pinger_Run.loop_attempt_def sample_sending_def sample_start_def emit_def)
qed

lemma sample_run: "reached (sample_env Linux) good_conn silent sample_start 3 sample_stopped"
proof -
  let ?r = "reached (sample_env Linux) good_conn silent sample_start"
  have 1: "?r 1 sample_sending"
    using go_step.loop_init [of sample_start "sample_env Linux" good_conn 5]
      reached_Suc [OF reached_0, of "sample_env Linux" good_conn silent sample_start sample_sending]
    by (simp add: run_step_def sample_sending) (simp add: sample_start_def)
  let ?s = "sample_start\<lparr>timeout_on := True, interval_on := True, rs_conn := 1, rs_p := sample_sent, looper := Running LSelect\<rparr>"
  have "go_step (sample_env Linux) good_conn sample_sending ?s"
    using go_step.loop_attempt [of sample_sending True sample_dst 0 sample_request 1 "sample_env Linux" good_conn]
    unfolding sample_attempted by (simp add: sample_sending_def sample_start_def sample_pinger_def New_def)
  with reached_Suc [OF 1, of ?s] have 2: "?r 2 ?s"
    by (simp add: run_step_def sample_sending_def sample_start_def numeral_2_eq_2)
  have "world_step silent ?s sample_stopped"
    using world_step.client_stop [of silent ?s]
    by (simp add: with_go_def Stop_simps sample_sent_def sample_pinger_def New_def sample_stopped_def sample_start_def silent_def free_world_def)
  with reached_Suc [OF 2, of sample_stopped] show ?thesis
    by (simp add: run_step_def sample_start_def eval_nat_numeral)
qed

theorem run_safe_witness: "boom sample_stopped = None \<and> length (rs_queue sample_stopped) \<le> 5"
  using run_safe [OF sample_begin sample_ready sample_run] by simp

theorem run_counts_witness:
  "PacketsSent (rs_p sample_stopped) = 1 \<and> card (pending_keys (rs_p sample_stopped)) = 1"
proof -
  have "PacketsSent (rs_p sample_stopped) = 1" "PacketsRecv (rs_p sample_stopped) = 0"
    by (simp_all add: sample_stopped_def sample_sent_def) (simp add: sample_pinger_def New_def)
  with run_counts [OF sample_begin sample_ready sample_run] show ?thesis by simp
qed

theorem run_no_deadlock_witness: "\<exists>s'. go_step (sample_env Linux) good_conn sample_stopped s'"
  by (rule run_no_deadlock [OF sample_begin sample_ready sample_run, of 1])
    (simp_all add: sample_stopped_def sample_start_def sample_sent_def sample_pinger_def New_def)

theorem run_stops_witness: "\<exists>s' r. (go_step (sample_env Linux) good_conn)\<^sup>*\<^sup>* sample_stopped s' \<and> main s' = Done r"
  by (rule run_stops [OF sample_begin sample_ready sample_run])
    (simp_all add: sample_stopped_def sample_start_def at_select_def)

text \<open>On macOS a reply of 32 bytes behind a header of 20 fits exactly.\<close>

theorem reply_fits_buffer_witness:
  "\<exists>buf. recv_top Darwin sample_start = sample_start\<lparr>receiver := Running (RArm buf)\<rparr> \<and> length buf = 52"
proof -
  have p: "Size (rs_p sample_start) = 24" "ident (rs_p sample_start) = 7" "sequence (rs_p sample_start) = 0"
    "ipv4 (rs_p sample_start)" "\<not> Privileged (rs_p sample_start)" "done_chan (rs_p sample_start) = OpenChan"
    by (simp_all add: sample_start_def Privileged_def) (simp_all add: sample_pinger_def New_def)
  have os: "GOOS (sample_env Darwin) = Darwin" "uuid_Marshal (sample_env Darwin) 0 = Inr (replicate 16 0)"
    by (simp_all add: sample_env_def)
  obtain m where "icmp_Marshal (sample_env Darwin) \<lparr>msg_Type = reply_type (rs_p sample_start), msg_Code = 0,
      msg_Body = Echo (ident (rs_p sample_start)) (sequence (rs_p sample_start))
        (send_payload (rs_p sample_start) 5 (replicate 16 0))\<rparr> = Inr m"
    by (simp add: sample_env_def sample_Marshal_def)
  from reply_fits_buffer [OF icmp_laws_sample uuid_laws_sample os(2) _ _ _ _ _ _ _ this, of "replicate 20 0"]
  show ?thesis by (auto simp: p os(1) header_left_def)
qed

text \<open>A socket that counts the operations on it.\<close>

definition sample_xnet :: "nat xnet" where
  "sample_xnet = \<lparr>xn_Close = (\<lambda>s. (s + 1, None)), xn_SetReadDeadline = (\<lambda>s t. (s + 1, None)),
     xn_SetControlMessage = (\<lambda>s f b. (s + 1, None)), xn_SetHops = (\<lambda>s n. (s + 1, None)),
     xn_SetClass = (\<lambda>s n. (s + 1, None)), xn_ReadFrom = (\<lambda>s b. (s + 1, b, 0, None, AddrOther 0, None)),
     xn_WriteTo = (\<lambda>s b cm dst. (s + 1, 0, None)), xn_Assemble = (\<lambda>is. None), xn_SetBPF = (\<lambda>s is. (s + 1, None)),
     xn_c_is_struct = (\<lambda>s. True), xn_fd_is_struct = (\<lambda>s. True), xn_pfd_is_struct = (\<lambda>s. True),
     xn_Sysfd = (\<lambda>s. 3), xn_Setsockopt = (\<lambda>s fd lvl opt v. (s + 1, None))\<rparr>"

definition sample_icmp :: "nat \<Rightarrow> nat icmp_conn" where
  "sample_icmp k = \<lparr>sock = k, conn_ttl = 64, ifIndex = 2, source = []\<rparr>"

definition sample_net :: "nat icmp_conn world" where
  "sample_net = free_world (\<lambda>c c'. c' = c\<lparr>sock := sock c + 1\<rparr>)"

definition sample_icmp_run :: "nat \<Rightarrow> (byte, nat icmp_conn) run_state" where
  "sample_icmp_run k = \<lparr>rs_p = sample_pinger, rs_conn = sample_icmp k, rs_queue = [], rs_closed = False,
     ctx_err = None, group_err = None, watcher = Running (), receiver = Running RInit,
     rs_backoff = newExpBackoff 50000 11, rs_delay = 0, looper = Running LInit, timeout_on = False,
     timeout_tick = False, interval_on = False, interval_tick = False, main = Waiting, trace = [], boom = None\<rparr>"

theorem run_keeps_config_witness:
  "\<exists>s. reached (sample_env Linux) (icmpv4Conn_methods Linux sample_xnet) sample_net (sample_icmp_run 0) 1 s \<and>
     conn_config (rs_conn s) = (64, 2, []) \<and> sock (rs_conn s) = 1"
proof -
  have "traffic sample_net (rs_conn (sample_icmp_run 0)) (sample_icmp 1)"
    by (simp add: sample_net_def free_world_def sample_icmp_run_def sample_icmp_def)
  from world_step.network [where wd = sample_net and s = "sample_icmp_run 0", OF this] have "world_step sample_net (sample_icmp_run 0) (sample_icmp_run 1)"
    by (simp add: sample_icmp_run_def)
  then have "run_step (sample_env Linux) (icmpv4Conn_methods Linux sample_xnet) sample_net (sample_icmp_run 0) (sample_icmp_run 1)"
    unfolding run_step_def by (simp add: sample_icmp_run_def)
  from reached_Suc [OF reached_0 this]
  have r: "reached (sample_env Linux) (icmpv4Conn_methods Linux sample_xnet) sample_net (sample_icmp_run 0) 1 (sample_icmp_run 1)"
    by simp
  have "conn_config (rs_conn (sample_icmp_run 1)) = conn_config (rs_conn (sample_icmp_run 0))"
    by (rule run_keeps_config [where v = True, unfolded if_True, OF r]) (simp add: sample_net_def free_world_def conn_config_def)
  with r show ?thesis
    by (intro exI [of _ "sample_icmp_run 1"]) (simp add: sample_icmp_run_def sample_icmp_def conn_config_def)
qed

end
