(* ===== verification/Run_History.thy ===== *)
theory Run_History
  imports Run_Properties "HOL-Library.Sublist"
begin

text \<open>
  What a run of \<^verbatim>\<open>ping.go\<close> does not take back. In the order of its states the callbacks and log
  lines only grow at the end, the counters only rise and the stop channel only moves on from open
  to closed; once \<^verbatim>\<open>Wait\<close> has returned the pinger no longer changes, and once the call has
  returned there is no further callback.
\<close>

section \<open>The order of states\<close>

definition grows :: "('u, 'c) run_state \<Rightarrow> ('u, 'c) run_state \<Rightarrow> bool" where
  "grows s t \<longleftrightarrow> prefix (trace s) (trace t) \<and> PacketsSent (rs_p s) \<le> PacketsSent (rs_p t) \<and>
     PacketsRecv (rs_p s) \<le> PacketsRecv (rs_p t) \<and> done_chan (rs_p s) \<le> done_chan (rs_p t)"

definition later :: "('u, 'c) run_state \<Rightarrow> ('u, 'c) run_state \<Rightarrow> bool" where
  "later s t \<longleftrightarrow> grows s t \<and> (main s \<noteq> Waiting \<longrightarrow> main t \<noteq> Waiting \<and> rs_p t = rs_p s) \<and>
     (\<forall>r. main s = Done r \<longrightarrow> main t = Done r \<and> trace t = trace s)"

lemma grows_refl [simp]: "grows s s"
  by (simp add: grows_def)

lemma grows_trans: "grows s t \<Longrightarrow> grows t u \<Longrightarrow> grows s u"
  unfolding grows_def using prefix_order.trans by (metis order_trans)

lemma later_refl [simp]: "later s s"
  by (simp add: later_def)

lemma later_trans: "later s t \<Longrightarrow> later t u \<Longrightarrow> later s u"
  unfolding later_def using grows_trans by metis

text \<open>While \<^verbatim>\<open>Wait\<close> waits only \<open>grows\<close> matters.\<close>

lemma later_waiting: "main s = Waiting \<Longrightarrow> grows s t \<Longrightarrow> later s t"
  by (simp add: later_def)

text \<open>A change of the other fields, and of these.\<close>

lemma grows_same: "rs_p t = rs_p s \<Longrightarrow> trace t = trace s \<Longrightarrow> grows s t"
  by (simp add: grows_def)

lemma grows_pinger:
  "trace t = trace s @ evs \<Longrightarrow> PacketsSent (rs_p s) \<le> PacketsSent (rs_p t) \<Longrightarrow> PacketsRecv (rs_p s) \<le> PacketsRecv (rs_p t) \<Longrightarrow>
     done_chan (rs_p s) \<le> done_chan (rs_p t) \<Longrightarrow> grows s t"
  by (simp add: grows_def)

lemma grows_stop: "rs_p t = rs_p s\<lparr>done_chan := ClosedChan\<rparr> \<Longrightarrow> trace t = trace s \<Longrightarrow> grows s t"
  by (simp add: grows_def)

section \<open>The looper\<close>

lemma grows_emit: "grows s t \<Longrightarrow> grows s (emit evs t)"
  by (auto simp: grows_def emit_def)

lemma grows_return: "grows s t \<Longrightarrow> grows s (loop_return r t)"
  by (simp add: grows_def loop_return_def stop_interval_def)

lemma grows_again: "grows s t \<Longrightarrow> grows s (loop_again t)"
  using grows_return [of s t None] by (simp add: loop_again_def grows_def)

lemma grows_send_failed: "grows s t \<Longrightarrow> grows s (send_failed first e t)"
  by (simp add: send_failed_def log_fatal_def grows_return grows_again grows_emit)

lemma grows_send_begin: "grows s t \<Longrightarrow> grows s (loop_send_begin env pc now first t)"
  using grows_send_failed [of s t first] by (auto simp: loop_send_begin_def with_go_def grows_def split: sum.split prod.split)

lemma grows_hand_in: "grows s t \<Longrightarrow> grows s (hand_in err t)"
  by (simp add: grows_def hand_in_def split: option.split)

lemmas grows_intros = grows_emit grows_return grows_again grows_send_failed grows_send_begin grows_hand_in grows_same

lemma grows_attempt:
  assumes p: "p_inv p0 n (rs_p s)" "int n < 2 ^ 63 - 1" and new: "new \<notin> set (trackerUUIDs (rs_p s))"
    and cur: "cur = last (trackerUUIDs (rs_p s))"
  shows "grows s (loop_attempt env pc new first dst cur b s)"
proof (cases "send_attempt env pc b dst new cur (rs_p s) (rs_conn s)")
  case (Returns err c q evs)
  from attempt_run [OF p new Returns [unfolded cur]]
  have "grows s (emit evs (s\<lparr>rs_conn := c, rs_p := q\<rparr>))" by (intro grows_pinger) (simp_all add: emit_def)
  moreover from this have "grows s ((emit evs (s\<lparr>rs_conn := c, rs_p := q\<rparr>))\<lparr>looper := Running LSelect\<rparr>)"
    by (simp add: grows_def)
  ultimately show ?thesis
    by (auto simp: loop_attempt_def Returns Let_def intro: grows_send_failed grows_again split: option.split)
qed (simp_all add: loop_attempt_def grows_def emit_def)

lemma grows_recv:
  assumes "p_inv p0 n (rs_p s)"
  shows "grows s (loop_recv env now r (s\<lparr>rs_queue := rest\<rparr>))"
proof (cases "processPacket env now r (rs_p s)")
  case (Inr x)
  obtain err q evs where x: "x = (err, q, evs)" by (cases x) auto
  have "grows s (emit evs (s\<lparr>rs_queue := rest, rs_p := q\<rparr>))"
    using process_run [OF assms Inr [unfolded x]] by (intro grows_pinger) (auto simp: emit_def)
  then show ?thesis
    by (auto simp: loop_recv_def Inr x with_go_def Let_def log_fatal_def intro: grows_again grows_emit split: option.split)
qed (simp add: loop_recv_def with_go_def grows_same)

lemma grows_interval: "grows s (loop_interval env pc now s)"
  by (auto simp: loop_interval_def Let_def stop_interval_def intro!: grows_same grows_send_begin)

section \<open>Every step\<close>

text \<open>As long as a goroutine is there, \<^verbatim>\<open>Wait\<close> waits.\<close>

lemma still_waiting:
  assumes "run_inv p0 n s"
  shows "watcher s \<noteq> Exited \<Longrightarrow> main s = Waiting" "receiver s \<noteq> Exited \<Longrightarrow> main s = Waiting" "looper s \<noteq> Exited \<Longrightarrow> main s = Waiting"
  using run_invD(4,5) [OF assms] run_inv_looper(1) [OF assms] by blast+

lemma later_go_step:
  assumes "go_step env pc s s'" and i: "run_inv p0 n s" "int n < 2 ^ 63 - 1"
  shows "later s s'"
proof -
  have p: "p_inv p0 n (rs_p s)" using i(1) by (simp add: run_inv_def base_inv_def)
  have stop: "with_go (Stop (rs_p s)) f s = f (rs_p s\<lparr>done_chan := ClosedChan\<rparr>)" for f
    using i(1) Stop_Inr [of "rs_p s"] by (simp add: run_inv_def base_inv_def p_inv_def with_go_def)
  note waits = still_waiting [OF i(1)]
  show ?thesis
    using assms(1)
  proof cases
    case (watch_ctx e)
    then show ?thesis unfolding watch_ctx(1) stop by (intro later_waiting waits grows_stop) simp_all
  next
    case watch_done
    then show ?thesis by (intro later_waiting waits grows_same) simp_all
  next
    case (watch_exit err)
    then show ?thesis by (intro later_waiting waits) (auto intro!: grows_intros)
  next
    case (recv_init r)
    then show ?thesis
      by (intro later_waiting waits grows_same) (simp_all add: Pinger_Run.recv_init_def with_go_def split: sum.split)
  next
    case recv_top
    then show ?thesis
      by (intro later_waiting waits grows_same) (simp_all add: Pinger_Run.recv_top_def with_go_def split: sum.split)
  next
    case (recv_arm b now)
    then show ?thesis
      by (intro later_waiting waits grows_same) (auto simp: Pinger_Run.recv_arm_def split: prod.split option.split)
  next
    case (recv_read b r)
    then have "main s = Waiting" by (intro waits) simp
    with recv_read show ?thesis
      by (auto simp: Pinger_Run.recv_read_def Let_def with_go_def emit_def grows_def intro!: later_waiting
          split: prod.split option.split sum.split)
  next
    case (recv_quit k)
    then show ?thesis by (intro later_waiting waits grows_same) simp_all
  next
    case (recv_push k)
    then show ?thesis by (intro later_waiting waits grows_same) (simp_all add: Pinger_Run.recv_push_def)
  next
    case (recv_stop err)
    then show ?thesis unfolding recv_stop(1) stop by (intro later_waiting waits grows_stop) simp_all
  next
    case (recv_exit err)
    then show ?thesis by (intro later_waiting waits) (auto intro!: grows_intros)
  next
    case (loop_init now)
    then show ?thesis
      by (intro later_waiting waits) (auto simp: Pinger_Run.loop_init_def intro!: grows_intros)
  next
    case (loop_attempt first dst cur b new)
    moreover from this have "cur = last (trackerUUIDs (rs_p s))" using i(1) by (simp add: run_inv_def loop_inv_def)
    ultimately show ?thesis using grows_attempt [OF p i(2)] waits(3) by (auto intro: later_waiting)
  next
    case loop_done
    then show ?thesis by (intro later_waiting waits) (auto intro: grows_return)
  next
    case loop_timeout
    then show ?thesis by (intro later_waiting waits) (auto intro: grows_return)
  next
    case (loop_recv r rest now)
    then show ?thesis using grows_recv [OF p] by (intro later_waiting waits) simp_all
  next
    case loop_recv_closed
    then show ?thesis by (intro later_waiting waits grows_same) simp_all
  next
    case (loop_interval now)
    then show ?thesis using grows_interval by (intro later_waiting waits) simp_all
  next
    case (loop_stop err)
    then show ?thesis unfolding loop_stop(1) stop by (intro later_waiting waits grows_stop) simp_all
  next
    case (loop_exit err)
    then show ?thesis by (intro later_waiting waits) (auto intro!: grows_intros)
  next
    case main_wait
    then show ?thesis by (intro later_waiting grows_same) simp_all
  next
    case (main_close r)
    then show ?thesis using run_invD(3) [OF i(1)] by (auto simp: Pinger_Run.main_close_def later_def grows_same)
  next
    case (main_finish r)
    then show ?thesis by (simp add: later_def grows_def emit_def)
  qed
qed

lemma later_world_step:
  assumes "world_step wd s s'" "run_inv p0 n s"
  shows "later s s'"
  using assms(1)
proof cases
  case client_stop
  have "rs_p s\<lparr>done_chan := ClosedChan\<rparr> = rs_p s" if "main s \<noteq> Waiting"
    using run_inv_looper [OF assms(2)] that by (metis Stop_Inr Stop_simps(2) chan.distinct(3) gone.simps(2) sum.inject(2))
  moreover have "Stop (rs_p s) = Inr (rs_p s\<lparr>done_chan := ClosedChan\<rparr>)"
    using run_invD(7) [OF assms(2)] by (simp add: p_inv_def Stop_Inr)
  ultimately show ?thesis using client_stop by (simp add: with_go_def later_def grows_stop)
qed (simp_all add: later_def grows_same)

section \<open>Every run\<close>

lemma reached_trans:
  assumes "reached env pc wd s m t" "reached env pc wd s0 n s"
  shows "reached env pc wd s0 (n + m) t"
  using assms by (induction rule: reached.induct) (auto intro: reached_Suc)

lemma reached_later:
  assumes "reached env pc wd s m t" "reached env pc wd s0 n s" "run_begin pc c p = Inr s0" "run_ready p" "int (n + m) < 2 ^ 63"
  shows "later s t"
  using assms
proof (induction rule: reached.induct)
  case (reached_Suc m t t')
  then have "reached env pc wd s0 (n + m) t" by (intro reached_trans)
  then have i: "run_inv p (n + m) t" "int (n + m) < 2 ^ 63 - 1" using reached_Suc by (auto intro: reached_inv)
  from reached_Suc have "later s t" by simp
  moreover have "later t t'"
    using reached_Suc(2) later_go_step [OF _ i] later_world_step [OF _ i(1)] by (auto simp: run_step_def)
  ultimately show ?case by (rule later_trans)
qed simp

text \<open>
  C11. A run takes nothing back. From any state of a run to any later one the callbacks and log lines
  are continued at the end, \<^verbatim>\<open>PacketsSent\<close> and \<^verbatim>\<open>PacketsRecv\<close> do not fall and a closed stop channel
  stays closed; once \<^verbatim>\<open>Wait\<close> has returned the pinger is never changed again, so that the statistics
  \<^verbatim>\<open>OnFinish\<close> gets are those a client reads afterwards; and a run that is done stays done, with
  its error, and calls back no more, whatever the world does.
\<close>

theorem run_history:
  assumes "run_begin pc c p = Inr s0" "run_ready p" "reached env pc wd s0 n s" "reached env pc wd s m t" "int (n + m) < 2 ^ 63"
  shows "prefix (trace s) (trace t) \<and> PacketsSent (rs_p s) \<le> PacketsSent (rs_p t) \<and> PacketsRecv (rs_p s) \<le> PacketsRecv (rs_p t) \<and>
    done_chan (rs_p s) \<le> done_chan (rs_p t) \<and> (main s \<noteq> Waiting \<longrightarrow> rs_p t = rs_p s) \<and>
    (\<forall>r. main s = Done r \<longrightarrow> main t = Done r \<and> trace t = trace s)"
  using reached_later [OF assms(4,3,1,2,5)] unfolding later_def grows_def by blast

section \<open>Witness\<close>

text \<open>From the start to the state in which a request has been sent and the client has stopped the pinger.\<close>

theorem run_history_witness:
  "reached (sample_env Linux) good_conn silent sample_start 3 sample_stopped \<and>
   PacketsSent (rs_p sample_start) \<le> PacketsSent (rs_p sample_stopped) \<and>
   done_chan (rs_p sample_start) < done_chan (rs_p sample_stopped)"
proof -
  have "done_chan (rs_p sample_start) = OpenChan" "done_chan (rs_p sample_stopped) = ClosedChan"
    by (simp_all add: sample_start_def sample_stopped_def) (simp add: sample_pinger_def New_def)
  moreover have "PacketsSent (rs_p sample_start) \<le> PacketsSent (rs_p sample_stopped)"
    using run_history [OF sample_begin sample_ready reached_0 sample_run] by simp
  ultimately show ?thesis using sample_run by (simp add: less_chan_def)
qed

end
