(* ===== verification/Pinger_Setup.thy ===== *)
theory Pinger_Setup
  imports Run_Properties
begin

text \<open>
  \<^verbatim>\<open>listen\<close>, \<^verbatim>\<open>RunWithContext\<close> and \<^verbatim>\<open>Run\<close> of \<^verbatim>\<open>ping.go\<close>: from the client's call to the socket,
  its configuration, the run of \<open>Pinger_Run\<close> and the deferred \<^verbatim>\<open>Close\<close>. To say what happens on
  the socket over a whole run, \<open>logged\<close> puts a log beside it; the log is not part of the model.
\<close>

section \<open>The system\<close>

text \<open>
  \<^verbatim>\<open>icmp.ListenPacket\<close>, the socket operations of the two address families,
  \<^verbatim>\<open>net.InterfaceByName\<close> (its \<^verbatim>\<open>Index\<close>) and \<^verbatim>\<open>net.ParseIP\<close> (nil for a text that is no address).
\<close>

record 's sys =
  ListenPacket :: "string \<Rightarrow> string \<Rightarrow> go_error + 's"
  xn4 :: "'s xnet"
  xn6 :: "'s xnet"
  InterfaceByName :: "string \<Rightarrow> go_error + int"
  ParseIP :: "string \<Rightarrow> ip option"

text \<open>An interface value holding an \<^verbatim>\<open>*icmpv4Conn\<close> or an \<^verbatim>\<open>*icmpV6Conn\<close>: which one, and its struct.\<close>

definition conn_methods :: "goos \<Rightarrow> 's sys \<Rightarrow> bool \<Rightarrow> 's icmp_conn packet_conn" where
  "conn_methods os sys v = (if v then icmpv4Conn_methods os (xn4 sys) else icmpV6Conn_methods os (xn6 sys))"

definition new_conn :: "'s \<Rightarrow> 's icmp_conn" where
  "new_conn s = \<lparr>sock = s, conn_ttl = 0, ifIndex = 0, source = []\<rparr>"

section \<open>listen\<close>

definition listen ::
  "'u env \<Rightarrow> 's sys \<Rightarrow> 'u pinger \<Rightarrow> ((go_error + bool \<times> 's icmp_conn) \<times> 'u pinger \<times> event list) go" where
  "listen env sys p =
     (let (v, r) = (if ipv4 p then (True, ListenPacket sys (ipv4Proto (protocol p)) (Source p))
                    else (False, ListenPacket sys (ipv6Proto (protocol p)) (Source p)))
      in case r of
           Inl err \<Rightarrow> go_bind (Stop p) (\<lambda>p. Inr (Inl err, p, []))
         | Inr s \<Rightarrow>
            (let c = new_conn s
             in if Privileged p then
                  (case InstallICMPIDFilter (conn_methods (GOOS env) sys v) c (ident p) of
                     (c, None) \<Rightarrow> Inr (Inr (v, c), p, [])
                   | (c, Some err) \<Rightarrow> (case p_logger p of
                         None \<Rightarrow> Inl NilDereference
                       | Some lg \<Rightarrow> Inr (Inr (v, c), p,
                           map LogLine (Warnf lg ''error installing icmp filter, %v'' [ArgError err]))))
                else Inr (Inr (v, c), p, [])))"

section \<open>RunWithContext\<close>

text \<open>The options between \<^verbatim>\<open>listen\<close> and \<^verbatim>\<open>run\<close>, each with its early return.\<close>

definition configure :: "'s sys \<Rightarrow> 'c packet_conn \<Rightarrow> 'u pinger \<Rightarrow> 'c \<Rightarrow> 'c \<times> go_error option" where
  "configure sys pc p c =
     (let (c, err) = (if mark p \<noteq> 0 then c_SetMark pc c (mark p) else (c, None)) in
      case err of Some e \<Rightarrow> (c, Some (E_setting_mark e)) | None \<Rightarrow>
      let (c, err) = (if df p then c_SetDoNotFragment pc c else (c, None)) in
      case err of Some e \<Rightarrow> (c, Some (E_setting_df e)) | None \<Rightarrow>
      let (c, err) = (if tclass p \<noteq> 0 then c_SetTrafficClass pc c (tclass p) else (c, None)) in
      case err of Some e \<Rightarrow> (c, Some (E_setting_tclass e)) | None \<Rightarrow>
      let c = SetTTL pc c (p_TTL p);
          (c, err) = (if InterfaceName p \<noteq> '''' then
                        (case InterfaceByName sys (InterfaceName p) of
                           Inl e \<Rightarrow> (c, Some e)
                         | Inr i \<Rightarrow> (SetIfIndex pc c i, None))
                      else (c, None)) in
      case err of Some e \<Rightarrow> (c, Some e) | None \<Rightarrow>
      if Source p \<noteq> '''' then
        (case ParseIP sys (Source p) of
           None \<Rightarrow> (c, Some (E_invalid_source (Source p)))
         | Some a \<Rightarrow> (SetSource pc c a, None))
      else (c, None))"

text \<open>What is there when \<^verbatim>\<open>run\<close> is called, or the error before: without a connection, or with one to close.\<close>

datatype ('u, 's) prepared =
    Refused go_error "'u pinger" "event list"
  | Misconfigured go_error bool "'s icmp_conn" "'u pinger" "event list"
  | Ready bool "'s icmp_conn" "'u pinger" "event list"

definition prepare :: "'u env \<Rightarrow> 's sys \<Rightarrow> resolver \<Rightarrow> 'u pinger \<Rightarrow> ('u, 's) prepared go" where
  "prepare env sys rs p =
     (if Size p < int (timeSliceLength + trackerLength)
      then Inr (Refused (E_size (Size p) (int (timeSliceLength + trackerLength))) p [])
      else go_bind (if ipaddr p = None then Resolve rs p else Inr (None, p)) (\<lambda>(err, p).
        case err of
          Some e \<Rightarrow> Inr (Refused e p [])
        | None \<Rightarrow> go_bind (listen env sys p) (\<lambda>(r, p, evs).
            case r of
              Inl e \<Rightarrow> Inr (Refused e p evs)
            | Inr (v, c) \<Rightarrow> (case configure sys (conn_methods (GOOS env) sys v) p c of
                  (c, Some e) \<Rightarrow> Inr (Misconfigured e v c p evs)
                | (c, None) \<Rightarrow> Inr (Ready v c p evs)))))"

text \<open>What the client has after the call: the error, the pinger, the connection and the callbacks and log lines.\<close>

record ('u, 's) outcome =
  out_err :: "go_error option"
  out_p :: "'u pinger"
  out_conn :: "(bool \<times> 's icmp_conn) option"
  out_trace :: "event list"

definition net_on :: "'s world \<Rightarrow> 's icmp_conn world" where
  "net_on wd = \<lparr>may_cancel = may_cancel wd, may_stop = may_stop wd, may_time_out = may_time_out wd,
     traffic = (\<lambda>c c'. \<exists>s. traffic wd (sock c) s \<and> c' = c\<lparr>sock := s\<rparr>)\<rparr>"

lemma net_on_simps [simp]:
  "may_cancel (net_on wd) = may_cancel wd" "may_stop (net_on wd) = may_stop wd"
  "may_time_out (net_on wd) = may_time_out wd"
  by (simp_all add: net_on_def)

definition closed_outcome ::
  "goos \<Rightarrow> 's sys \<Rightarrow> go_error option \<Rightarrow> 'u pinger \<Rightarrow> bool \<Rightarrow> 's icmp_conn \<Rightarrow> event list \<Rightarrow> ('u, 's) outcome" where
  "closed_outcome os sys err p v c evs =
     \<lparr>out_err = err, out_p = p, out_conn = Some (v, fst (Close (conn_methods os sys v) c)), out_trace = evs\<rparr>"

text \<open>
  A whole call that returns; \<open>n\<close> is the number of steps of its goroutines and of the world around
  them, and \<open>wd\<close> what that world may do, on the socket too.
\<close>

inductive RunWithContext ::
  "'u env \<Rightarrow> 's sys \<Rightarrow> resolver \<Rightarrow> 's world \<Rightarrow> 'u pinger \<Rightarrow> nat \<Rightarrow> ('u, 's) outcome \<Rightarrow> bool"
  for env :: "'u env" and sys :: "'s sys" and rs :: resolver and wd :: "'s world" and p :: "'u pinger" where
  refused: "prepare env sys rs p = Inr (Refused e q evs) \<Longrightarrow>
    RunWithContext env sys rs wd p 0 \<lparr>out_err = Some e, out_p = q, out_conn = None, out_trace = evs\<rparr>"
| misconfigured: "prepare env sys rs p = Inr (Misconfigured e v c q evs) \<Longrightarrow>
    RunWithContext env sys rs wd p 0 (closed_outcome (GOOS env) sys (Some e) q v c evs)"
| no_flag: "prepare env sys rs p = Inr (Ready v c q evs) \<Longrightarrow>
    run_begin (conn_methods (GOOS env) sys v) c q = Inl (c', e) \<Longrightarrow>
    RunWithContext env sys rs wd p 0 (closed_outcome (GOOS env) sys (Some e) q v c' evs)"
| ran: "prepare env sys rs p = Inr (Ready v c q evs) \<Longrightarrow>
    run_begin (conn_methods (GOOS env) sys v) c q = Inr s0 \<Longrightarrow>
    reached env (conn_methods (GOOS env) sys v) (net_on wd) s0 n s \<Longrightarrow> main s = Done r \<Longrightarrow>
    RunWithContext env sys rs wd p n (closed_outcome (GOOS env) sys r (rs_p s) v (rs_conn s) (evs @ trace s))"

text \<open>\<^verbatim>\<open>Run\<close> has the background context, which nobody cancels.\<close>

definition Run ::
  "'u env \<Rightarrow> 's sys \<Rightarrow> resolver \<Rightarrow> 's world \<Rightarrow> 'u pinger \<Rightarrow> nat \<Rightarrow> ('u, 's) outcome \<Rightarrow> bool" where
  "Run env sys rs wd = RunWithContext env sys rs (wd\<lparr>may_cancel := False\<rparr>)"

section \<open>What preparing keeps\<close>

text \<open>What a run needs of its client; the address may still have to be resolved.\<close>

definition client_ready :: "'u pinger \<Rightarrow> bool" where
  "client_ready p \<longleftrightarrow> (\<exists>u. configured u p) \<and> p_logger p \<noteq> None \<and>
     0 < Timeout p \<and> 0 < Interval p \<and> Size p \<le> 2 ^ 52"

text \<open>The pinger a connection is asked for: the client's, its address resolved.\<close>

definition located :: "'u pinger \<Rightarrow> 'u pinger \<Rightarrow> bool" where
  "located p q \<longleftrightarrow> ipaddr q \<noteq> None \<and> (q = p \<or> (\<exists>a. q = p\<lparr>ipv4 := isIPv4 (IP a), ipaddr := Some a\<rparr>))"

lemma located_same: "ipaddr p \<noteq> None \<Longrightarrow> located p p"
  by (simp add: located_def)

lemma located_Resolve: "Resolve rs p = Inr (None, q) \<Longrightarrow> located p q"
  using Resolve_Inr_cases [of rs p None q] by (auto simp: located_def)

lemma listen_Inr:
  assumes "listen env sys p = Inr (r, q, evs)"
  shows "(\<exists>e. r = Inl e \<and> Stop p = Inr q \<and> evs = []) \<or>
    (\<exists>c s. r = Inr (ipv4 p, c) \<and> q = p \<and> (evs = [] \<or> (\<exists>ls. evs = map LogLine ls)) \<and>
       ListenPacket sys (if ipv4 p then ipv4Proto (protocol p) else ipv6Proto (protocol p)) (Source p) = Inr s \<and>
       (c = new_conn s \<or> c = fst (InstallICMPIDFilter (conn_methods (GOOS env) sys (ipv4 p)) (new_conn s) (ident p))))"
  using assms by (auto simp: listen_def Let_def go_bind_Inr_iff split: if_splits sum.splits option.splits prod.splits)

text \<open>The ways preparing can end.\<close>

definition prepared_as :: "'u env \<Rightarrow> 's sys \<Rightarrow> 'u pinger \<Rightarrow> 's icmp_conn \<Rightarrow> event list \<Rightarrow> ('u, 's) prepared" where
  "prepared_as env sys q c evs = (case configure sys (conn_methods (GOOS env) sys (ipv4 q)) q c of
       (c, Some e) \<Rightarrow> Misconfigured e (ipv4 q) c q evs
     | (c, None) \<Rightarrow> Ready (ipv4 q) c q evs)"

lemma prepare_Inr:
  assumes "prepare env sys rs p = Inr x"
  obtains (size) "Size p < 24" "x = Refused (E_size (Size p) 24) p []"
  | (resolve) e where "Resolve rs p = Inr (Some e, p)" "x = Refused e p []"
  | (listen) q e r where "24 \<le> Size p" "located p q" "Stop q = Inr r" "x = Refused e r []"
  | (opened) q s c evs where "24 \<le> Size p" "located p q" "x = prepared_as env sys q c evs" "\<exists>ls. evs = map LogLine ls"
      "ListenPacket sys (if ipv4 q then ipv4Proto (protocol q) else ipv6Proto (protocol q)) (Source q) = Inr s"
      "c = new_conn s \<or> c = fst (InstallICMPIDFilter (conn_methods (GOOS env) sys (ipv4 q)) (new_conn s) (ident q))"
proof (cases "Size p < 24")
  case True
  with assms size show thesis by (simp add: prepare_def)
next
  case False
  then obtain err q where q: "(if ipaddr p = None then Resolve rs p else Inr (None, p)) = Inr (err, q)"
    using assms by (auto simp: prepare_def go_bind_Inr_iff)
  show thesis
  proof (cases err)
    case (Some e)
    with q have "Resolve rs p = Inr (Some e, p)"
      using Resolve_Inr_cases [of rs p err q] by (auto split: if_splits)
    with q Some resolve assms False show thesis by (simp add: prepare_def split: if_splits)
  next
    case None
    then have l: "located p q" using q by (auto split: if_splits intro: located_Resolve located_same)
    obtain y r evs where y: "listen env sys q = Inr (y, r, evs)"
      using assms False q None by (auto simp: prepare_def go_bind_Inr_iff)
    with assms False q None have x: "x = (case y of Inl e \<Rightarrow> Refused e r evs
        | Inr (v, c) \<Rightarrow> (case configure sys (conn_methods (GOOS env) sys v) r c of
            (c, Some e) \<Rightarrow> Misconfigured e v c r evs
          | (c, None) \<Rightarrow> Ready v c r evs))"
      by (cases y) (auto simp: prepare_def split: prod.splits option.splits)
    show thesis
    proof (cases y)
      case (Inl e)
      with listen_Inr [OF y] x l False show thesis by (intro listen [of q r e]) auto
    next
      case (Inr b)
      then obtain c s where c: "b = (ipv4 q, c)" "r = q" "\<exists>ls. evs = map LogLine ls"
        "ListenPacket sys (if ipv4 q then ipv4Proto (protocol q) else ipv6Proto (protocol q)) (Source q) = Inr s"
        "c = new_conn s \<or> c = fst (InstallICMPIDFilter (conn_methods (GOOS env) sys (ipv4 q)) (new_conn s) (ident q))"
        using listen_Inr [OF y] by (metis (no_types) Inl_Inr_False Inr_inject list.simps(8))
      with x Inr l False show thesis
        by (intro opened [of q c evs s]) (simp_all add: prepared_as_def)
    qed
  qed
qed

lemma prepared_as_simps:
  "prepared_as env sys q c evs = Ready v d r ls \<longleftrightarrow>
     configure sys (conn_methods (GOOS env) sys (ipv4 q)) q c = (d, None) \<and> v = ipv4 q \<and> r = q \<and> ls = evs"
  "prepared_as env sys q c evs = Misconfigured e v d r ls \<longleftrightarrow>
     configure sys (conn_methods (GOOS env) sys (ipv4 q)) q c = (d, Some e) \<and> v = ipv4 q \<and> r = q \<and> ls = evs"
  "prepared_as env sys q c evs \<noteq> Refused e r ls"
  by (auto simp: prepared_as_def split: prod.splits option.splits)

text \<open>A client's pinger that gets as far as the run is ready for it.\<close>

lemma located_ready:
  assumes "located p q" "client_ready p" "24 \<le> Size p"
  shows "run_ready q"
proof -
  obtain u where "configured u p" using assms(2) by (auto simp: client_ready_def)
  then have "configured u q" using assms(1) by (auto simp: located_def configured_def)
  with assms show ?thesis by (auto simp: located_def client_ready_def run_ready_def)
qed

lemma located_fields:
  assumes "located p q"
  shows "OnFinish q = OnFinish p" "OnRecv q = OnRecv p" "Count q = Count p" "PacketsSent q = PacketsSent p"
    "PacketsRecv q = PacketsRecv p" "awaitingSequences q = awaitingSequences p" "done_chan q = done_chan p"
  using assms by (auto simp: located_def)

text \<open>What \<^verbatim>\<open>prepare\<close> does to the pinger and which events it has: log lines only.\<close>

lemma prepared_pinger:
  assumes "prepare env sys rs p = Inr x" "done_chan p \<noteq> NilChan"
  shows "x = Refused e q evs \<Longrightarrow> evs = [] \<and> (\<exists>r. (r = p \<or> located p r) \<and> (q = r \<or> (\<exists>c. q = r\<lparr>done_chan := c\<rparr>)))"
    "x = Misconfigured e v c q evs \<Longrightarrow> (\<exists>ls. evs = map LogLine ls) \<and> located p q"
    "x = Ready v c q evs \<Longrightarrow> (\<exists>ls. evs = map LogLine ls) \<and> located p q \<and> 24 \<le> Size p"
proof -
  have "(x = Refused e q evs \<longrightarrow> evs = [] \<and> (\<exists>r. (r = p \<or> located p r) \<and> (q = r \<or> (\<exists>c. q = r\<lparr>done_chan := c\<rparr>)))) \<and>
    (x = Misconfigured e v c q evs \<longrightarrow> (\<exists>ls. evs = map LogLine ls) \<and> located p q) \<and>
    (x = Ready v c q evs \<longrightarrow> (\<exists>ls. evs = map LogLine ls) \<and> located p q \<and> 24 \<le> Size p)"
    using assms(1)
  proof (cases rule: prepare_Inr)
    case size
    then show ?thesis by auto
  next
    case (resolve e)
    then show ?thesis by auto
  next
    case (listen r e r')
    with Stop_Inr [of r] located_fields(7) [OF listen(2)] assms(2) show ?thesis by auto
  next
    case (opened r s d ls)
    then show ?thesis by (auto simp: prepared_as_simps)
  qed
  then show "x = Refused e q evs \<Longrightarrow> evs = [] \<and> (\<exists>r. (r = p \<or> located p r) \<and> (q = r \<or> (\<exists>c. q = r\<lparr>done_chan := c\<rparr>)))"
    "x = Misconfigured e v c q evs \<Longrightarrow> (\<exists>ls. evs = map LogLine ls) \<and> located p q"
    "x = Ready v c q evs \<Longrightarrow> (\<exists>ls. evs = map LogLine ls) \<and> located p q \<and> 24 \<le> Size p" by simp_all
qed

section \<open>The socket's log\<close>

text \<open>An operation on the socket, as the library asks for it.\<close>

datatype sock_op =
    SockClose
  | SockDeadline time
  | SockControl control_flag bool
  | SockHops int
  | SockClass int
  | SockRead
  | SockWrite "byte list" "control_message option" net_addr
  | SockBPF "bpf_instr list"
  | SockOpt string string int

definition with_log :: "sock_op \<Rightarrow> sock_op list \<Rightarrow> 's \<times> 'r \<Rightarrow> ('s \<times> sock_op list) \<times> 'r" where
  "with_log k l x = ((fst x, l @ [k]), snd x)"

definition logged :: "'s xnet \<Rightarrow> ('s \<times> sock_op list) xnet" where
  "logged xn = \<lparr>
     xn_Close = \<lambda>(s, l). with_log SockClose l (xn_Close xn s),
     xn_SetReadDeadline = \<lambda>(s, l) t. with_log (SockDeadline t) l (xn_SetReadDeadline xn s t),
     xn_SetControlMessage = \<lambda>(s, l) f b. with_log (SockControl f b) l (xn_SetControlMessage xn s f b),
     xn_SetHops = \<lambda>(s, l) n. with_log (SockHops n) l (xn_SetHops xn s n),
     xn_SetClass = \<lambda>(s, l) n. with_log (SockClass n) l (xn_SetClass xn s n),
     xn_ReadFrom = \<lambda>(s, l) b. with_log SockRead l (xn_ReadFrom xn s b),
     xn_WriteTo = \<lambda>(s, l) b cm dst. with_log (SockWrite b cm dst) l (xn_WriteTo xn s b cm dst),
     xn_Assemble = xn_Assemble xn,
     xn_SetBPF = \<lambda>(s, l) is. with_log (SockBPF is) l (xn_SetBPF xn s is),
     xn_c_is_struct = \<lambda>(s, l). xn_c_is_struct xn s,
     xn_fd_is_struct = \<lambda>(s, l). xn_fd_is_struct xn s,
     xn_pfd_is_struct = \<lambda>(s, l). xn_pfd_is_struct xn s,
     xn_Sysfd = \<lambda>(s, l). xn_Sysfd xn s,
     xn_Setsockopt = \<lambda>(s, l) fd lvl opt v. with_log (SockOpt lvl opt v) l (xn_Setsockopt xn s fd lvl opt v)\<rparr>"

definition logged_sys :: "'s sys \<Rightarrow> ('s \<times> sock_op list) sys" where
  "logged_sys sys = \<lparr>
     ListenPacket = \<lambda>nw a. map_sum id (\<lambda>s. (s, [])) (ListenPacket sys nw a),
     xn4 = logged (xn4 sys), xn6 = logged (xn6 sys),
     InterfaceByName = InterfaceByName sys, ParseIP = ParseIP sys\<rparr>"

definition logged_net :: "'s world \<Rightarrow> ('s \<times> sock_op list) world" where
  "logged_net wd = \<lparr>may_cancel = may_cancel wd, may_stop = may_stop wd, may_time_out = may_time_out wd,
     traffic = (\<lambda>x y. traffic wd (fst x) (fst y) \<and> snd y = snd x)\<rparr>"

abbreviation sock_log :: "('s \<times> sock_op list) icmp_conn \<Rightarrow> sock_op list" where
  "sock_log c \<equiv> snd (sock c)"

text \<open>
  What may be in the log of an open socket with TTL \<open>t\<close>, interface index \<open>i\<close> and source address
  \<open>a\<close>: it is not closed, the TTL set is \<open>t\<close>, and every datagram has the control message of \<open>i\<close> and \<open>a\<close>.
\<close>

definition cm_of :: "int \<Rightarrow> ip \<Rightarrow> control_message option" where
  "cm_of i a = (if i < 1 \<and> a = [] then None else Some \<lparr>cm_TTL = 0, cm_Src = a, cm_IfIndex = max 0 i\<rparr>)"

fun op_allowed :: "int \<times> int \<times> ip \<Rightarrow> sock_op \<Rightarrow> bool" where
  "op_allowed (t, i, a) SockClose = False"
| "op_allowed (t, i, a) (SockHops n) = (n = t)"
| "op_allowed (t, i, a) (SockWrite b cm dst) = (cm = cm_of i a)"
| "op_allowed k _ = True"

definition wire_ok :: "int \<times> int \<times> ip \<Rightarrow> ('s \<times> sock_op list) icmp_conn \<Rightarrow> bool" where
  "wire_ok k c \<longleftrightarrow> conn_config c = k \<and> list_all (op_allowed k) (sock_log c)"

lemma expected_cm_of: "expected_cm c = cm_of (ifIndex c) (source c)"
  by (simp add: expected_cm_def cm_of_def)

lemma logged_simps [simp]:
  "xn_Close (logged xn) x = with_log SockClose (snd x) (xn_Close xn (fst x))"
  "xn_SetReadDeadline (logged xn) x t = with_log (SockDeadline t) (snd x) (xn_SetReadDeadline xn (fst x) t)"
  "xn_SetControlMessage (logged xn) x f b = with_log (SockControl f b) (snd x) (xn_SetControlMessage xn (fst x) f b)"
  "xn_SetHops (logged xn) x n = with_log (SockHops n) (snd x) (xn_SetHops xn (fst x) n)"
  "xn_SetClass (logged xn) x n = with_log (SockClass n) (snd x) (xn_SetClass xn (fst x) n)"
  "xn_ReadFrom (logged xn) x b' = with_log SockRead (snd x) (xn_ReadFrom xn (fst x) b')"
  "xn_WriteTo (logged xn) x b' cm dst = with_log (SockWrite b' cm dst) (snd x) (xn_WriteTo xn (fst x) b' cm dst)"
  "xn_Assemble (logged xn) = xn_Assemble xn"
  "xn_SetBPF (logged xn) x prog = with_log (SockBPF prog) (snd x) (xn_SetBPF xn (fst x) prog)"
  "xn_Setsockopt (logged xn) x fd lvl opt v = with_log (SockOpt lvl opt v) (snd x) (xn_Setsockopt xn (fst x) fd lvl opt v)"
  "getFD (logged xn) x = getFD xn (fst x)"
  by (simp_all add: logged_def getFD_def case_prod_beta)

lemma with_log_simps [simp]:
  "snd (fst (with_log k l x)) = l @ [k]" "snd (with_log k l x) = snd x" "fst (fst (with_log k l x)) = fst x"
  by (simp_all add: with_log_def)

text \<open>The entries that are allowed at any time, and what an operation adds to the log.\<close>

fun neutral :: "sock_op \<Rightarrow> bool" where
  "neutral SockClose = False"
| "neutral (SockHops n) = False"
| "neutral (SockWrite b cm dst) = False"
| "neutral _ = True"

lemma neutral_allowed: "neutral x \<Longrightarrow> op_allowed k x"
  by (cases k; cases x) simp_all

definition adds :: "(sock_op \<Rightarrow> bool) \<Rightarrow> ('s \<times> sock_op list) icmp_conn \<Rightarrow> ('s \<times> sock_op list) icmp_conn \<Rightarrow> bool" where
  "adds P c c' \<longleftrightarrow> (\<exists>ks. sock_log c' = sock_log c @ ks \<and> list_all P ks)"

lemma adds_refl [simp]: "adds P c c"
  by (simp add: adds_def)

lemma adds_one [simp]: "P k \<Longrightarrow> adds P c (fst (on_sock c (with_log k (sock_log c) x)))"
  by (simp add: adds_def)

lemma adds_mono: "adds P c c' \<Longrightarrow> (\<And>k. P k \<Longrightarrow> Q k) \<Longrightarrow> adds Q c c'"
  by (auto simp: adds_def list_all_iff)

lemma adds_log: "adds P c c' \<Longrightarrow> list_all P (sock_log c) \<Longrightarrow> list_all P (sock_log c')"
  by (auto simp: adds_def)

lemma adds_WriteTo:
  "adds (op_allowed (conn_config c)) c (fst (icmpv4Conn_WriteTo (logged xn) c b dst))"
  by (auto simp: WriteTo_spec with_log_def adds_def conn_config_def expected_cm_of split: prod.splits)

lemma adds_sockopt:
  "adds neutral c (fst (linux_icmpv4Conn_SetMark (logged xn) c m))"
  "adds neutral c (fst (linux_icmpV6Conn_SetMark (logged xn) c m))"
  "adds neutral c (fst (linux_icmpv4Conn_SetDoNotFragment (logged xn) c))"
  "adds neutral c (fst (linux_icmpV6Conn_SetDoNotFragment (logged xn) c))"
  "adds neutral c (fst (linux_icmpv4Conn_SetBroadcastFlag (logged xn) c))"
  "adds neutral c (fst (linux_icmpV6Conn_SetBroadcastFlag (logged xn) c))"
  by (simp_all add: linux_sockopt_defs case_prod_beta split: sum.split)

lemma adds_filter:
  "adds neutral c (fst (linux_icmpv4Conn_InstallICMPIDFilter (logged xn) c i))"
  "adds neutral c (fst (linux_icmpV6Conn_InstallICMPIDFilter (logged xn) c i))"
  by (simp_all add: linux_icmpv4Conn_InstallICMPIDFilter_def linux_icmpV6Conn_InstallICMPIDFilter_def split: option.split)

fun is_write :: "conn_op \<Rightarrow> bool" where
  "is_write (OpWrite b dst) = True"
| "is_write _ = False"

lemma adds_op:
  assumes "opn \<noteq> OpClose" "\<not> is_write opn"
  shows "adds neutral c (apply_op (icmpv4Conn_methods os (logged xn)) opn c)"
    "adds neutral c (apply_op (icmpV6Conn_methods os (logged xn)) opn c)"
  using assms
  by (cases opn; simp add: icmpv4Conn_methods_def icmpV6Conn_methods_def adds_sockopt adds_filter icmpConn_SetReadDeadline_def
      icmpv4Conn_SetFlagTTL_def icmpV6Conn_SetFlagTTL_def icmpv4Conn_ReadFrom_def icmpV6Conn_ReadFrom_def case_prod_beta
      icmpv4Conn_SetTrafficClass_def icmpV6Conn_SetTrafficClass_def windows_conn_defs other_conn_defs split: goos.split)+

lemma wire_op:
  assumes "opn \<noteq> OpClose" "wire_ok k c"
  shows "wire_ok k (apply_op (icmpv4Conn_methods os (logged xn)) opn c)"
    "wire_ok k (apply_op (icmpV6Conn_methods os (logged xn)) opn c)"
proof -
  note k = assms(2) [unfolded wire_ok_def]
  have "adds (op_allowed k) c (apply_op (icmpv4Conn_methods os (logged xn)) opn c) \<and>
    adds (op_allowed k) c (apply_op (icmpV6Conn_methods os (logged xn)) opn c)"
  proof (cases opn)
    case (OpWrite b dst)
    with adds_WriteTo [of c xn b dst] k show ?thesis
      by (simp add: icmpv4Conn_methods_def icmpV6Conn_methods_def WriteTo_v6_eq)
  qed (use adds_op [of opn c os xn] assms(1) in \<open>auto intro: adds_mono neutral_allowed\<close>)
  with k show "wire_ok k (apply_op (icmpv4Conn_methods os (logged xn)) opn c)"
    "wire_ok k (apply_op (icmpV6Conn_methods os (logged xn)) opn c)"
    by (auto simp: wire_ok_def conn_config_op intro: adds_log)
qed

interpretation wire4: conn_inv "icmpv4Conn_methods os (logged xn)" "wire_ok k" for os xn k
  by unfold_locales (rule wire_op)

interpretation wire6: conn_inv "icmpV6Conn_methods os (logged xn)" "wire_ok k" for os xn k
  by unfold_locales (rule wire_op)

text \<open>Between \<^verbatim>\<open>listen\<close> and \<^verbatim>\<open>run\<close> only neutral entries are added, whatever fails.\<close>

definition quiet :: "('s \<times> sock_op list) icmp_conn \<Rightarrow> bool" where
  "quiet c \<longleftrightarrow> list_all neutral (sock_log c)"

text \<open>The interface index and source address a client asks for.\<close>

definition wanted :: "'s sys \<Rightarrow> 'u pinger \<Rightarrow> int \<times> int \<times> ip" where
  "wanted sys p = (p_TTL p,
     if InterfaceName p = '''' then 0 else (case InterfaceByName sys (InterfaceName p) of Inl e \<Rightarrow> 0 | Inr i \<Rightarrow> i),
     if Source p = '''' then [] else (case ParseIP sys (Source p) of None \<Rightarrow> [] | Some a \<Rightarrow> a))"

lemma quiet_op:
  assumes "opn \<noteq> OpClose" "\<not> is_write opn" "quiet c"
  shows "quiet (apply_op (conn_methods os (logged_sys sys) v) opn c)"
proof -
  have "conn_methods os (logged_sys sys) v =
      (if v then icmpv4Conn_methods os (logged (xn4 sys)) else icmpV6Conn_methods os (logged (xn6 sys)))"
    by (simp add: conn_methods_def logged_sys_def)
  with adds_op [OF assms(1,2), of c os "xn4 sys"] adds_op [OF assms(1,2), of c os "xn6 sys"] assms(3) show ?thesis
    by (auto simp: quiet_def dest: adds_log)
qed

lemma quiet_calls:
  assumes "quiet c"
  shows "quiet (fst (c_SetMark (conn_methods os (logged_sys sys) v) c m))"
    "quiet (fst (c_SetDoNotFragment (conn_methods os (logged_sys sys) v) c))"
    "quiet (fst (c_SetTrafficClass (conn_methods os (logged_sys sys) v) c tc))"
    "quiet (fst (InstallICMPIDFilter (conn_methods os (logged_sys sys) v) c i))"
    "quiet (fst (SetFlagTTL (conn_methods os (logged_sys sys) v) c))"
  using quiet_op [of "OpMark m" c os sys v] quiet_op [of OpDF c os sys v] quiet_op [of "OpClass tc" c os sys v]
    quiet_op [of "OpFilter i" c os sys v] quiet_op [of OpFlagTTL c os sys v] assms
  by simp_all

lemma conn_methods_setters [simp]:
  "SetTTL (conn_methods os sys v) c n = c\<lparr>conn_ttl := n\<rparr>"
  "SetIfIndex (conn_methods os sys v) c i = c\<lparr>ifIndex := i\<rparr>"
  "SetSource (conn_methods os sys v) c a = c\<lparr>source := a\<rparr>"
  "Close (conn_methods os (logged_sys sys) v) d =
     on_sock d (with_log SockClose (sock_log d) (xn_Close (if v then xn4 sys else xn6 sys) (fst (sock d))))"
  by (simp_all add: conn_methods_def icmpv4Conn_methods_def icmpV6Conn_methods_def icmpConn_SetTTL_def
      icmpConn_SetIfIndex_def icmpConn_SetSource_def icmpConn_Close_def logged_sys_def)

lemma logged_sys_lookups [simp]:
  "InterfaceByName (logged_sys sys) = InterfaceByName sys" "ParseIP (logged_sys sys) = ParseIP sys"
  by (simp_all add: logged_sys_def)

lemma quiet_setters [simp]:
  "quiet (c\<lparr>conn_ttl := n\<rparr>) = quiet c" "quiet (c\<lparr>ifIndex := i\<rparr>) = quiet c" "quiet (c\<lparr>source := a\<rparr>) = quiet c"
  by (simp_all add: quiet_def)

text \<open>The methods do not touch the configuration.\<close>

lemma conn_config_calls:
  "conn_config (fst (c_SetMark (conn_methods os sys v) c m)) = conn_config c"
  "conn_config (fst (c_SetDoNotFragment (conn_methods os sys v) c)) = conn_config c"
  "conn_config (fst (c_SetTrafficClass (conn_methods os sys v) c tc)) = conn_config c"
  "conn_config (fst (InstallICMPIDFilter (conn_methods os sys v) c i)) = conn_config c"
  "conn_config (fst (SetFlagTTL (conn_methods os sys v) c)) = conn_config c"
proof -
  have "conn_config (apply_op (conn_methods os sys v) opn c) = conn_config c" for opn
    by (simp add: conn_methods_def conn_config_op)
  from this [of "OpMark m"] this [of OpDF] this [of "OpClass tc"] this [of "OpFilter i"] this [of OpFlagTTL]
  show "conn_config (fst (c_SetMark (conn_methods os sys v) c m)) = conn_config c"
    "conn_config (fst (c_SetDoNotFragment (conn_methods os sys v) c)) = conn_config c"
    "conn_config (fst (c_SetTrafficClass (conn_methods os sys v) c tc)) = conn_config c"
    "conn_config (fst (InstallICMPIDFilter (conn_methods os sys v) c i)) = conn_config c"
    "conn_config (fst (SetFlagTTL (conn_methods os sys v) c)) = conn_config c" by simp_all
qed

lemma configure_keeps:
  fixes sys :: "'s sys"
  assumes "configure (logged_sys sys) (conn_methods os (logged_sys sys) v) p c = (d, err)"
    and "quiet c" "conn_config c = (0, 0, [])"
  shows "quiet d \<and> (err = None \<longrightarrow> conn_config d = wanted sys p)"
proof -
  let ?pc = "conn_methods os (logged_sys sys) v"
  define r1 where "r1 = (if mark p \<noteq> 0 then c_SetMark ?pc c (mark p) else (c, None))"
  define r2 where "r2 = (if df p then c_SetDoNotFragment ?pc (fst r1) else (fst r1, None))"
  define r3 where "r3 = (if tclass p \<noteq> 0 then c_SetTrafficClass ?pc (fst r2) (tclass p) else (fst r2, None))"
  have 1: "quiet (fst r1)" "conn_config (fst r1) = (0, 0, [])"
    using assms(2,3) by (simp_all add: r1_def quiet_calls conn_config_calls)
  then have 2: "quiet (fst r2)" "conn_config (fst r2) = (0, 0, [])"
    by (simp_all add: r2_def quiet_calls conn_config_calls)
  then have 3: "quiet (fst r3)" "conn_config (fst r3) = (0, 0, [])"
    by (simp_all add: r3_def quiet_calls conn_config_calls)
  have "configure (logged_sys sys) ?pc p c =
    (case snd r1 of Some e \<Rightarrow> (fst r1, Some (E_setting_mark e)) | None \<Rightarrow>
     case snd r2 of Some e \<Rightarrow> (fst r2, Some (E_setting_df e)) | None \<Rightarrow>
     case snd r3 of Some e \<Rightarrow> (fst r3, Some (E_setting_tclass e)) | None \<Rightarrow>
      let c = (fst r3)\<lparr>conn_ttl := p_TTL p\<rparr>;
          (c, err) = (if InterfaceName p \<noteq> '''' then
                        (case InterfaceByName sys (InterfaceName p) of
                           Inl e \<Rightarrow> (c, Some e)
                         | Inr i \<Rightarrow> (c\<lparr>ifIndex := i\<rparr>, None))
                      else (c, None)) in
      case err of Some e \<Rightarrow> (c, Some e) | None \<Rightarrow>
      if Source p \<noteq> '''' then
        (case ParseIP sys (Source p) of
           None \<Rightarrow> (c, Some (E_invalid_source (Source p)))
         | Some a \<Rightarrow> (c\<lparr>source := a\<rparr>, None))
      else (c, None))"
    unfolding configure_def Let_def case_prod_beta r1_def [symmetric] r2_def [symmetric] r3_def [symmetric]
      conn_methods_setters logged_sys_lookups
    by (rule refl)
  with assms(1) 1(1) 2(1) 3 show ?thesis
    by (auto simp: wanted_def conn_config_def Let_def split: option.splits if_splits sum.splits)
qed

lemma wanted_located: "located p q \<Longrightarrow> wanted sys q = wanted sys p"
  by (auto simp: located_def wanted_def)

text \<open>What has been opened when \<^verbatim>\<open>prepare\<close> returns: a quiet socket, configured as wanted if there was no error.\<close>

lemma prepared_quiet:
  assumes "prepare env (logged_sys sys) rs p = Inr x"
  shows "x = Misconfigured e v c q evs \<Longrightarrow> quiet c"
    "x = Ready v c q evs \<Longrightarrow> quiet c \<and> conn_config c = wanted sys p"
proof -
  have "(x = Misconfigured e v c q evs \<longrightarrow> quiet c) \<and> (x = Ready v c q evs \<longrightarrow> quiet c \<and> conn_config c = wanted sys p)"
    using assms
  proof (cases rule: prepare_Inr)
    case (opened r s d ls)
    then have "quiet (new_conn s)" "conn_config (new_conn s) = (0, 0, [])"
      by (auto simp: logged_sys_def quiet_def new_conn_def conn_config_def map_sum_def split: sum.splits)
    with opened have d: "quiet d" "conn_config d = (0, 0, [])"
      by (auto simp: quiet_calls conn_config_calls)
    show ?thesis
      using configure_keeps [OF _ d, of sys "GOOS env" "ipv4 r" r] wanted_located [OF opened(2), of sys] opened(3)
      by (auto simp: prepared_as_simps)
  qed simp_all
  then show "x = Misconfigured e v c q evs \<Longrightarrow> quiet c"
    "x = Ready v c q evs \<Longrightarrow> quiet c \<and> conn_config c = wanted sys p" by simp_all
qed

lemma quiet_wire_ok: "quiet c \<Longrightarrow> conn_config c = k \<Longrightarrow> wire_ok k c"
  by (auto simp: quiet_def wire_ok_def list_all_iff neutral_allowed)

lemma wire_reached:
  assumes "reached env (conn_methods os (logged_sys sys) v) (net_on (logged_net wd)) s0 n s" "wire_ok k (rs_conn s0)"
  shows "wire_ok k (rs_conn s)"
proof -
  have "wire_ok k c'" if "traffic (net_on (logged_net wd)) c c'" "wire_ok k c" for c c'
    using that by (auto simp: net_on_def logged_net_def wire_ok_def)
  then show ?thesis
    using assms wire4.inv_reached [of env os "xn4 sys" "net_on (logged_net wd)" s0 n s k]
      wire6.inv_reached [of env os "xn6 sys" "net_on (logged_net wd)" s0 n s k]
    by (cases v) (auto simp: conn_methods_def logged_sys_def)
qed

lemma run_begin_conn:
  "run_begin pc c q = Inr s0 \<Longrightarrow> rs_conn s0 = fst (SetFlagTTL pc c)"
  "run_begin pc c q = Inl (c', e) \<Longrightarrow> c' = fst (SetFlagTTL pc c)"
  by (auto simp: run_begin_def split: prod.splits option.splits)

text \<open>
  C16. A socket that a run opens is closed exactly once, as the last thing done on it, whichever
  way the call ends. While it is open the TTL set on it is the client's, and every datagram goes
  out with the interface and the source address the client asked for.
\<close>

theorem socket_discipline:
  assumes "RunWithContext env (logged_sys sys) rs (logged_net wd) p n out" "out_conn out = Some (v, c)"
  shows "\<exists>l. sock_log c = l @ [SockClose] \<and> list_all (op_allowed (wanted sys p)) l"
  using assms(1)
proof cases
  case (misconfigured e v' d q evs)
  then have "quiet d" by (intro prepared_quiet(1)) simp_all
  with misconfigured assms(2) show ?thesis
    by (auto simp: closed_outcome_def quiet_def list_all_iff neutral_allowed)
next
  case (no_flag v' d q evs c' e)
  then have "quiet d" using prepared_quiet(2) by blast
  then have "quiet c'" using quiet_calls(5) [of d "GOOS env" sys v'] run_begin_conn(2) [OF no_flag(4)] by simp
  with no_flag assms(2) show ?thesis
    by (auto simp: closed_outcome_def quiet_def list_all_iff neutral_allowed)
next
  case (ran v' d q evs s0 s r)
  then have "quiet d" "conn_config d = wanted sys p" using prepared_quiet(2) by blast+
  then have "wire_ok (wanted sys p) (rs_conn s0)"
    using quiet_calls(5) [of d "GOOS env" sys v'] run_begin_conn(1) [OF ran(3)]
    by (intro quiet_wire_ok) (simp_all add: conn_config_calls)
  from wire_reached [OF ran(4) this] ran assms(2) show ?thesis
    by (auto simp: closed_outcome_def wire_ok_def)
qed (use assms(2) in simp)

lemma client_books:
  fixes p :: "'u pinger"
  assumes "client_ready p"
  shows "PacketsSent p = 0" "PacketsRecv p = 0" "pending_keys p = {}" "done_chan p \<noteq> NilChan"
proof -
  obtain u where u: "configured u p" using assms by (auto simp: client_ready_def)
  then show "PacketsSent p = 0" "PacketsRecv p = 0" "done_chan p \<noteq> NilChan" by (simp_all add: configured_def)
  have "awaitingSequences p = [u \<mapsto> {}]" using u by (simp add: configured_def)
  then show "pending_keys p = {}" by (auto simp: pending_keys_def inflight_def split: option.splits if_splits)
qed

text \<open>
  What a call leaves: \<open>n\<close> steps of a run or, for \<open>n = 0\<close>, an error before it. Of the pinger a client
  gave, set-up changes the address and the stop channel only.
\<close>

definition leaves :: "'u pinger \<Rightarrow> nat \<Rightarrow> ('u, 's) outcome \<Rightarrow> bool" where
  "leaves p n out \<longleftrightarrow>
    count_events is_finish_event (out_trace out) = (if OnFinish p \<and> 0 < n then 1 else 0) \<and>
    (if 0 < n then done_chan (out_p out) = ClosedChan else out_err out \<noteq> None \<and> PacketsSent (out_p out) = 0) \<and>
    (0 < Count p \<longrightarrow> PacketsSent (out_p out) \<le> Count p) \<and>
    PacketsSent (out_p out) = PacketsRecv (out_p out) + int (card (pending_keys (out_p out))) \<and>
    count_events is_recv_event (out_trace out) = (if OnRecv p then PacketsRecv (out_p out) else 0) \<and>
    0 \<le> PacketsRecv (out_p out) \<and>
    (n = 0 \<longrightarrow> (\<exists>ls. out_trace out = map LogLine ls))"

lemma untouched:
  assumes "client_ready p" "r = p \<or> located p r" "q = r \<or> (\<exists>c. q = r\<lparr>done_chan := c\<rparr>)"
  shows "PacketsSent q = 0 \<and> PacketsRecv q = 0 \<and> pending_keys q = {}"
proof -
  have "PacketsSent q = PacketsSent p" "PacketsRecv q = PacketsRecv p" "awaitingSequences q = awaitingSequences p"
    using assms(2,3) located_fields [of p r] by auto
  with client_books [OF assms(1)] pending_cong [OF this(3)] show ?thesis by simp
qed

lemma leaves_ran:
  assumes p: "client_ready p" "located p q" "24 \<le> Size p" and b: "run_begin pc c q = Inr s0"
    and r: "reached env pc wd s0 n s" "main s = Done r" "int n < 2 ^ 63"
    and o: "out_p out = rs_p s" "out_trace out = map LogLine ls @ trace s"
  shows "leaves p n out"
proof -
  note ready = located_ready [OF p(2,1,3)] and f = located_fields [OF p(2)]
  have "run_inv q n s" using reached_inv [OF r(1) b ready r(3)] .
  then have "OnFinish (rs_p s) = OnFinish p" using run_invD(7) f(1) by (fastforce simp: p_inv_def)
  moreover have "main s0 = Waiting" using b by (auto simp: run_begin_def split: prod.splits option.splits)
  with r(1,2) have "0 < n" by (cases) auto
  ultimately show ?thesis
    using reached_finish [OF b ready r(1,3)] reached_counts [OF b ready r(1,3)] r(2) o f
    by (auto simp: leaves_def finish_def)
qed

lemma RunWithContext_leaves:
  assumes "RunWithContext env sys rs wd p n out" and p: "client_ready p" and n: "int n < 2 ^ 63"
  shows "leaves p n out"
proof -
  note d = client_books(4) [OF p]
  from assms(1) show ?thesis
  proof cases
    case (refused e q evs)
    then obtain r where r: "r = p \<or> located p r" "q = r \<or> (\<exists>c. q = r\<lparr>done_chan := c\<rparr>)" "evs = []"
      using prepared_pinger(1) [OF refused(3) d refl] by blast
    from untouched [OF p r(1,2)] show ?thesis by (simp add: refused(1,2) r(3) leaves_def)
  next
    case (misconfigured e v c q evs)
    then obtain ls where r: "evs = map LogLine ls" "located p q"
      using prepared_pinger(2) [OF misconfigured(3) d refl] by blast
    have "PacketsSent q = 0 \<and> PacketsRecv q = 0 \<and> pending_keys q = {}"
      by (rule untouched [OF p, of q]) (use r(2) in simp_all)
    then show ?thesis by (auto simp: misconfigured(1,2) r(1) closed_outcome_def leaves_def)
  next
    case (no_flag v c q evs c' e)
    then obtain ls where r: "evs = map LogLine ls" "located p q"
      using prepared_pinger(3) [OF no_flag(3) d refl] by blast
    have "PacketsSent q = 0 \<and> PacketsRecv q = 0 \<and> pending_keys q = {}"
      by (rule untouched [OF p, of q]) (use r(2) in simp_all)
    then show ?thesis by (auto simp: no_flag(1,2) r(1) closed_outcome_def leaves_def)
  next
    case (ran v c q evs s0 s r)
    then obtain ls where q: "located p q" "24 \<le> Size p" "evs = map LogLine ls"
      using prepared_pinger(3) [OF ran(2) d refl] by blast
    show ?thesis
      by (rule leaves_ran [OF p q(1,2) ran(3,4,5) n, where ls = ls]) (simp_all add: ran(1) q(3) closed_outcome_def)
  qed
qed

text \<open>
  C2. A whole call of \<^verbatim>\<open>RunWithContext\<close>, from set-up to return, on a pinger a client has configured
  (\<open>client_ready\<close>: fresh, with a logger and positive times): if it gets to the run it calls \<^verbatim>\<open>OnFinish\<close>,
  where that is set, exactly once and leaves the pinger stopped; if it does not it returns an error, has
  sent nothing and calls no \<^verbatim>\<open>OnFinish\<close>; and either way the books balance and \<^verbatim>\<open>Count\<close> bounds the
  packets sent.
\<close>

theorem whole_run:
  assumes "RunWithContext env sys rs wd p n out" "client_ready p" "int n < 2 ^ 63"
  shows "count_events is_finish_event (out_trace out) = (if OnFinish p \<and> 0 < n then 1 else 0) \<and>
    (if 0 < n then done_chan (out_p out) = ClosedChan else out_err out \<noteq> None \<and> PacketsSent (out_p out) = 0) \<and>
    (0 < Count p \<longrightarrow> PacketsSent (out_p out) \<le> Count p) \<and>
    PacketsSent (out_p out) = PacketsRecv (out_p out) + int (card (pending_keys (out_p out)))"
  using RunWithContext_leaves [OF assms] unfolding leaves_def by blast

lemma Resolve_total:
  assumes "\<And>n a. ResolveIPAddr rs n a \<noteq> Inr None"
  shows "\<exists>r. Resolve rs p = Inr r"
  using assms [of "network p" "addr p"]
  by (auto simp: Resolve_def Let_def split: sum.split option.split)

lemma listen_total:
  assumes "p_logger p \<noteq> None" "done_chan p \<noteq> NilChan"
  shows "\<exists>r. listen env sys p = Inr r"
  using assms Stop_Inr [of p] by (auto simp: listen_def Let_def split: sum.split option.split prod.split)

text \<open>
  Setting up never panics, whatever the system answers, if there is a logger and the stop
  channel is not nil: it refuses too small a size before anything else, and otherwise ends in an
  error or with a connection. The resolver is taken to return an address when it returns no error.
\<close>

theorem prepare_no_panic:
  assumes "p_logger p \<noteq> None" "done_chan p \<noteq> NilChan" "\<And>n a. ResolveIPAddr rs n a \<noteq> Inr None"
  shows "(\<exists>x. prepare env sys rs p = Inr x) \<and>
    (Size p < 24 \<longrightarrow> prepare env sys rs p = Inr (Refused (E_size (Size p) 24) p []))"
proof -
  obtain err q where q: "(if ipaddr p = None then Resolve rs p else Inr (None, p)) = Inr (err, q)"
    using Resolve_total [OF assms(3), of p] by (cases "ipaddr p = None") auto
  then have "p_logger q \<noteq> None" "done_chan q \<noteq> NilChan"
    using Resolve_fields [of rs p err q] assms(1,2) by (auto split: if_splits)
  then obtain r where r: "listen env sys q = Inr r" using listen_total by blast
  obtain y q' evs where "r = (y, q', evs)" by (cases r)
  with q r show ?thesis
    by (auto simp: prepare_def split: option.split sum.split prod.split)
qed

section \<open>Witnesses\<close>

text \<open>A system whose sockets count their operations and whose parser knows no address.\<close>

definition sample_sys :: "nat sys" where
  "sample_sys = \<lparr>ListenPacket = \<lambda>nw a. if nw = ''udp4'' then Inr 0 else Inl (ExternalError 0),
     xn4 = sample_xnet, xn6 = sample_xnet, InterfaceByName = \<lambda>n. Inl (ExternalError 1), ParseIP = \<lambda>a. None\<rparr>"

text \<open>A pinger with a mark and a source address that does not parse.\<close>

definition sample_marked :: "byte pinger" where
  "sample_marked = sample_pinger\<lparr>mark := 5, Source := ''x''\<rparr>"

theorem socket_discipline_witness:
  "\<exists>out c. RunWithContext (sample_env Linux) (logged_sys sample_sys) sample_resolver (logged_net silent) sample_marked 0 out \<and>
     out_conn out = Some (True, c) \<and> sock_log c = [SockOpt ''SOL_SOCKET'' ''SO_MARK'' 5, SockClose]"
proof -
  let ?c = "\<lparr>sock = (1, [SockOpt ''SOL_SOCKET'' ''SO_MARK'' 5]), conn_ttl = 64, ifIndex = 0, source = []\<rparr>"
  have "prepare (sample_env Linux) (logged_sys sample_sys) sample_resolver sample_marked =
      Inr (Misconfigured (E_invalid_source ''x'') True ?c sample_marked [])"
    by (simp add: prepare_def sample_marked_def sample_pinger_def New_def listen_def ipv4Proto_def Privileged_def
        new_conn_def logged_sys_def sample_sys_def configure_def conn_methods_def icmpv4Conn_methods_def
        linux_icmpv4Conn_SetMark_def sample_env_def sample_xnet_def logged_def getFD_def i64_def on_sock_def
        with_log_def NewSyscallError_def icmpConn_SetTTL_def)
  from misconfigured [OF this] obtain out where
    out: "RunWithContext (sample_env Linux) (logged_sys sample_sys) sample_resolver (logged_net silent) sample_marked 0 out"
    and "out = closed_outcome Linux (logged_sys sample_sys) (Some (E_invalid_source ''x'')) sample_marked True ?c []"
    by (simp add: sample_env_def)
  then obtain c where c: "out_conn out = Some (True, c)" "sock_log c = [SockOpt ''SOL_SOCKET'' ''SO_MARK'' 5, SockClose]"
    by (simp add: closed_outcome_def)
  from socket_discipline [OF out c(1)] out c show ?thesis by blast
qed

text \<open>A whole run: one request is sent, the client stops the pinger, the goroutines finish.\<close>

lemma finishing_schedule:
  assumes r: "reached env pc wd s0 n s" and b: "boom s = None" "rs_closed s = False" "main s = Waiting"
    and d: "done_chan (rs_p s) = ClosedChan" and l: "looper s = Running LSelect"
    and v: "receiver s = Running RTop" and w: "watcher s = Running ()"
  shows "\<exists>s'. reached env pc wd s0 (n + 11) s' \<and> main s' = Done (group_err s) \<and> rs_p s' = rs_p s \<and> rs_conn s' = rs_conn s"
proof -
  have "reached env pc wd s0 (Suc n) (loop_return None s)"
    by (rule reached_go [OF r b(1)], rule go_step.loop_done) (simp_all add: l d chan_ready_def)
  from finishing [OF this] b d v w obtain s' where "reached env pc wd s0 (Suc n + 10) s'" "main s' = Done (group_err s)"
    "rs_p s' = rs_p s\<lparr>done_chan := ClosedChan\<rparr>" "rs_conn s' = rs_conn s"
    by (auto simp: loop_return_def stop_interval_def simp del: add_Suc)
  moreover from this(3) have "rs_p s' = rs_p s" by (simp flip: d)
  ultimately show ?thesis by (intro exI [of _ s']) (simp add: eval_nat_numeral)
qed

definition sample_run_conn :: "nat \<Rightarrow> nat icmp_conn" where
  "sample_run_conn k = \<lparr>sock = k, conn_ttl = 64, ifIndex = 0, source = []\<rparr>"

definition sample_begun :: "(byte, nat icmp_conn) run_state" where
  "sample_begun = \<lparr>rs_p = sample_pinger, rs_conn = sample_run_conn 1, rs_queue = [], rs_closed = False,
     ctx_err = None, group_err = None, watcher = Running (), receiver = Running RInit,
     rs_backoff = newExpBackoff 50000 11, rs_delay = 0, looper = Running LInit, timeout_on = False,
     timeout_tick = False, interval_on = False, interval_tick = False, main = Waiting, trace = [], boom = None\<rparr>"

abbreviation sample_methods :: "nat icmp_conn packet_conn" where
  "sample_methods \<equiv> conn_methods Linux sample_sys True"

lemma sample_prepare:
  "prepare (sample_env Linux) sample_sys sample_resolver sample_pinger = Inr (Ready True (sample_run_conn 0) sample_pinger [])"
  by (simp add: prepare_def sample_pinger_def New_def listen_def ipv4Proto_def Privileged_def sample_run_conn_def
      new_conn_def sample_sys_def configure_def conn_methods_def icmpv4Conn_methods_def icmpConn_SetTTL_def)

lemma sample_flag: "run_begin sample_methods (sample_run_conn 0) sample_pinger = Inr sample_begun"
  by (simp add: run_begin_def conn_methods_def icmpv4Conn_methods_def icmpv4Conn_SetFlagTTL_def on_sock_def
      sample_sys_def sample_xnet_def sample_run_conn_def sample_begun_def) (simp add: sample_pinger_def New_def)

lemma sample_send_begin:
  "send_begin (sample_env Linux) sample_methods 5 c sample_pinger = Inr (Inr (sample_dst, 0, sample_request))"
proof -
  have "request (sample_env Linux) (sample_conn (\<lambda>k. None)) 5 0 sample_pinger 0 sample_dst sample_request"
    by (rule sample_request)
  then show ?thesis
    by (auto simp: request_def send_begin_def Let_def conn_methods_def icmpv4Conn_methods_def
        icmpv4Conn_ICMPRequestType_def sample_conn_def)
qed

lemma sample_send_attempt:
  "send_attempt (sample_env Linux) sample_methods sample_request sample_dst 1 0 sample_pinger (sample_run_conn 1) =
   Returns None (sample_run_conn 3) sample_sent []"
  by (simp add: send_attempt_def conn_methods_def icmpv4Conn_methods_def icmpv4Conn_WriteTo_def on_sock_def
      sample_sys_def sample_xnet_def sample_run_conn_def record_sent_def sample_sent_def Let_def)
    (simp add: sample_pinger_def New_def i64_def)

lemma sample_to_select:
  "\<exists>s. reached (sample_env Linux) sample_methods (net_on silent) sample_begun 4 s \<and> boom s = None \<and>
    rs_closed s = False \<and> main s = Waiting \<and> rs_p s = sample_sent\<lparr>done_chan := ClosedChan\<rparr> \<and> group_err s = None \<and>
    looper s = Running LSelect \<and> receiver s = Running RTop \<and> watcher s = Running ()"
proof -
  let ?E = "sample_env Linux" and ?N = "net_on silent :: nat icmp_conn world"
  let ?s1 = "sample_begun\<lparr>timeout_on := True, interval_on := True, looper := Running (LSend True sample_dst 0 sample_request)\<rparr>"
  let ?s2 = "?s1\<lparr>rs_conn := sample_run_conn 3, rs_p := sample_sent, looper := Running LSelect\<rparr>"
  let ?s3 = "?s2\<lparr>rs_p := sample_sent\<lparr>done_chan := ClosedChan\<rparr>\<rparr>"
  obtain d bo where g: "Get (\<lambda>n. 0) (newExpBackoff 50000 11) = Inr (d, bo)"
    by (simp add: Get_def newExpBackoff_def shl_one_def i64_def Let_def)
  let ?s4 = "?s3\<lparr>rs_delay := d, rs_backoff := bo, receiver := Running RTop\<rparr>"
  have "Pinger_Run.loop_init ?E sample_methods 5 sample_begun = ?s1"
    by (simp add: Pinger_Run.loop_init_def loop_send_begin_def with_go_def sample_begun_def sample_send_begin)
      (simp add: sample_pinger_def New_def)
  then have 1: "reached ?E sample_methods ?N sample_begun 1 ?s1"
    using reached_go [OF reached_0, of sample_begun ?E sample_methods ?s1 ?N]
      go_step.loop_init [of sample_begun ?E sample_methods 5] by (simp add: sample_begun_def)
  have a: "Pinger_Run.loop_attempt ?E sample_methods 1 True sample_dst 0 sample_request ?s1 = ?s2"
    by (simp add: Pinger_Run.loop_attempt_def sample_begun_def sample_send_attempt emit_def del: One_nat_def)
  have "go_step ?E sample_methods ?s1 ?s2"
    using go_step.loop_attempt [of ?s1 True sample_dst 0 sample_request 1 ?E sample_methods]
    unfolding a by (simp add: sample_begun_def sample_pinger_def New_def)
  with reached_go [OF 1] have 2: "reached ?E sample_methods ?N sample_begun 2 ?s2"
    by (simp add: numeral_2_eq_2 sample_begun_def)
  have "world_step ?N ?s2 ?s3"
    using world_step.client_stop [of ?N ?s2]
    by (simp add: with_go_def Stop_simps sample_sent_def sample_pinger_def New_def)
  with 2 have 3: "reached ?E sample_methods ?N sample_begun 3 ?s3"
    using reached_Suc [of ?E sample_methods ?N sample_begun 2 ?s2 ?s3]
    by (simp add: run_step_def sample_begun_def numeral_3_eq_3 numeral_2_eq_2)
  have "go_step ?E sample_methods ?s3 ?s4"
    using go_step.recv_init [of ?s3 "\<lambda>n. 0" ?E sample_methods]
    by (simp add: Int63n_law_def sample_begun_def Pinger_Run.recv_init_def with_go_def g)
  with reached_go [OF 3] have "reached ?E sample_methods ?N sample_begun 4 ?s4"
    by (simp add: eval_nat_numeral sample_begun_def)
  then show ?thesis by (rule_tac x = ?s4 in exI) (simp add: sample_begun_def)
qed

lemma sample_client: "client_ready sample_pinger"
  using sample_ready by (simp add: run_ready_def client_ready_def)

theorem whole_run_witness:
  "\<exists>n out. RunWithContext (sample_env Linux) sample_sys sample_resolver silent sample_pinger n out \<and>
     out_err out = None \<and> PacketsSent (out_p out) = 1 \<and> card (pending_keys (out_p out)) = 1 \<and>
     done_chan (out_p out) = ClosedChan"
proof -
  obtain s where s: "reached (sample_env Linux) sample_methods (net_on silent) sample_begun 4 s"
    "boom s = None" "rs_closed s = False" "main s = Waiting" "rs_p s = sample_sent\<lparr>done_chan := ClosedChan\<rparr>" "group_err s = None"
    "looper s = Running LSelect" "receiver s = Running RTop" "watcher s = Running ()"
    using sample_to_select by blast
  have "done_chan (rs_p s) = ClosedChan" by (simp add: s(5))
  from finishing_schedule [OF s(1,2,3,4) this s(7,8,9)] s(6) obtain t where
    t: "reached (sample_env Linux) sample_methods (net_on silent) sample_begun 15 t"
    "main t = Done None" "rs_p t = rs_p s" by auto
  obtain out where out: "RunWithContext (sample_env Linux) sample_sys sample_resolver silent sample_pinger 15 out"
    "out_err out = None" "out_p out = sample_sent\<lparr>done_chan := ClosedChan\<rparr>"
    using ran [OF sample_prepare, of sample_begun silent 15 t None] sample_flag t s(5)
    by (auto simp: sample_env_def closed_outcome_def)
  have b: "PacketsSent (out_p out) = 1" "PacketsRecv (out_p out) = 0"
    by (simp_all add: out(3) sample_sent_def) (simp add: sample_pinger_def New_def)
  with whole_run [OF out(1) sample_client] have "card (pending_keys (out_p out)) = 1" "done_chan (out_p out) = ClosedChan"
    by simp_all
  with out(1,2) b(1) show ?thesis by blast
qed

theorem prepare_no_panic_witness:
  "\<exists>x. prepare (sample_env Linux) sample_sys sample_resolver sample_pinger = Inr x"
proof -
  have "ResolveIPAddr sample_resolver n a \<noteq> Inr None" for n a by (simp add: sample_resolver_def)
  from prepare_no_panic [OF sample_logger _ this, of "sample_env Linux" sample_sys] show ?thesis
    by (simp add: sample_pinger_def New_def)
qed

end
