(* ===== verification/Run_Reasons.thy ===== *)
theory Run_Reasons
  imports Pinger_Setup
begin

text \<open>
  Why a run of \<^verbatim>\<open>ping.go\<close> ends. In a world that neither cancels nor stops a run nor lets its
  timeout strike, a run ends because a goroutine failed or because \<^verbatim>\<open>Count\<close> replies have come in;
  so a call of \<^verbatim>\<open>RunWithContext\<close> that returns no error has had every request answered.
\<close>

section \<open>The reasons\<close>

definition undisturbed :: "'c world \<Rightarrow> bool" where
  "undisturbed wd \<longleftrightarrow> \<not> may_cancel wd \<and> \<not> may_stop wd \<and> \<not> may_time_out wd"

text \<open>The looper or the receiver has an error to hand to the group, or has handed one in.\<close>

fun with_error :: "'a gor \<Rightarrow> bool" where
  "with_error (Stopping (Some e)) = True"
| "with_error (Returned (Some e)) = True"
| "with_error _ = False"

fun running :: "'a gor \<Rightarrow> bool" where
  "running (Running x) = True"
| "running _ = False"

definition failed :: "('u, 'c) run_state \<Rightarrow> bool" where
  "failed s \<longleftrightarrow> group_err s \<noteq> None \<or> with_error (receiver s) \<or> with_error (looper s)"

definition full :: "'u pinger \<Rightarrow> 'u pinger \<Rightarrow> bool" where
  "full p0 p \<longleftrightarrow> 0 < Count p0 \<and> Count p0 \<le> PacketsRecv p"

fun main_err :: "main_pc \<Rightarrow> go_error option option" where
  "main_err Waiting = None"
| "main_err (Closing r) = Some r"
| "main_err (Finishing r) = Some r"
| "main_err (Done r) = Some r"

text \<open>Whoever ends has a reason; and \<^verbatim>\<open>Wait\<close> has returned the error of the group.\<close>

definition reason_inv :: "'u pinger \<Rightarrow> ('u, 'c) run_state \<Rightarrow> bool" where
  "reason_inv p0 s \<longleftrightarrow> \<not> timeout_tick s \<and>
     (main s = Waiting \<and> ctx_err s \<noteq> None \<or> with_error (watcher s) \<longrightarrow> group_err s \<noteq> None) \<and>
     (done_chan (rs_p s) = ClosedChan \<or> \<not> running (receiver s) \<or> \<not> running (looper s) \<longrightarrow> full p0 (rs_p s) \<or> failed s) \<and>
     (\<forall>r. main_err (main s) = Some r \<longrightarrow> r = group_err s)"

text \<open>A looper that runs has not seen all replies yet.\<close>

lemma running_not_full:
  assumes "run_inv p0 n s" "looper s = Running x"
  shows "\<not> full p0 (rs_p s)"
proof -
  have "PacketsRecv (rs_p s) \<le> PacketsSent (rs_p s)" using run_invD(8) [OF assms(1)] by (rule tracked_recv_le)
  moreover have "loop_inv p0 s" using assms(1) by (simp add: run_inv_def)
  ultimately show ?thesis using assms(2) by (cases x) (auto simp: loop_inv_def full_def below_def)
qed

lemma Stop_reason:
  assumes "reason_inv p0 s" "run_inv p0 n s" "Stop (rs_p s) = Inr p" "full p0 (rs_p s) \<or> failed s"
  shows "reason_inv p0 (s\<lparr>rs_p := p\<rparr>)"
  using assms p_inv_Stop [of p0 n "rs_p s" p] by (auto simp: reason_inv_def run_inv_def base_inv_def full_def failed_def)

section \<open>The looper\<close>

lemma reason_return:
  assumes "reason_inv p0 s" "full p0 (rs_p s) \<or> failed s \<or> r \<noteq> None" "looper s = Running x"
  shows "reason_inv p0 (loop_return r s)"
  using assms by (auto simp: reason_inv_def loop_return_def stop_interval_def failed_def full_def)

lemma reason_again:
  assumes "reason_inv p0 s" "Count (rs_p s) = Count p0" "looper s = Running x"
  shows "reason_inv p0 (loop_again s)"
proof (cases "full p0 (rs_p s)")
  case True
  with assms reason_return [OF assms(1) _ assms(3)] show ?thesis by (simp add: loop_again_def full_def)
next
  case False
  with assms show ?thesis by (auto simp: loop_again_def full_def reason_inv_def failed_def)
qed

text \<open>While the looper runs, its changes of the pinger do not matter.\<close>

lemma reason_running:
  assumes "reason_inv p0 s" "\<not> full p0 (rs_p s)" "looper s = Running x" "running (looper s')"
    and "done_chan (rs_p s') = done_chan (rs_p s)" "timeout_tick s' = timeout_tick s" "main s' = main s"
    "ctx_err s' = ctx_err s" "group_err s' = group_err s" "watcher s' = watcher s" "receiver s' = receiver s"
  shows "reason_inv p0 s'"
  using assms unfolding reason_inv_def failed_def by auto

lemma reason_emit [simp]: "reason_inv p0 (emit evs s) = reason_inv p0 s"
  by (simp add: reason_inv_def failed_def emit_def)

lemma emit_simps [simp]: "rs_p (emit evs s) = rs_p s" "looper (emit evs s) = looper s"
  by (simp_all add: emit_def)

lemma reason_send_failed:
  assumes "reason_inv p0 s" "Count (rs_p s) = Count p0" "looper s = Running x"
  shows "reason_inv p0 (send_failed first e s)"
  using reason_return [OF assms(1) _ assms(3), of "Some e"] reason_again [of p0 "log_fatal f e s" x for f] assms
  by (simp add: send_failed_def log_fatal_def)

lemma reason_send_begin:
  assumes "reason_inv p0 s" "\<not> full p0 (rs_p s)" "Count (rs_p s) = Count p0" "looper s = Running x"
  shows "reason_inv p0 (loop_send_begin env pc now first s) \<or> boom (loop_send_begin env pc now first s) \<noteq> None"
proof (cases "send_begin env pc now (rs_conn s) (rs_p s)")
  case (Inr r)
  show ?thesis
  proof (cases r)
    case (Inl e)
    then show ?thesis using Inr reason_send_failed [OF assms(1,3,4)] by (simp add: loop_send_begin_def with_go_def)
  next
    case (Inr a)
    obtain dst cur b where a: "a = (dst, cur, b)" by (cases a) auto
    have "reason_inv p0 (s\<lparr>looper := Running (LSend first dst cur b)\<rparr>)"
      by (rule reason_running [OF assms(1,2,4)]) simp_all
    then show ?thesis using \<open>send_begin env pc now (rs_conn s) (rs_p s) = Inr r\<close> Inr a
      by (simp add: loop_send_begin_def with_go_def)
  qed
qed (simp add: loop_send_begin_def with_go_def)

lemma reason_attempt:
  assumes i: "run_inv p0 n s" "reason_inv p0 s" and l: "looper s = Running (LSend first dst cur b)"
    and new: "new \<notin> set (trackerUUIDs (rs_p s))" "int n < 2 ^ 63 - 1"
  shows "reason_inv p0 (loop_attempt env pc new first dst cur b s) \<or> boom (loop_attempt env pc new first dst cur b s) \<noteq> None"
proof -
  note nf = running_not_full [OF i(1) l]
  have p: "p_inv p0 n (rs_p s)" and c: "cur = last (trackerUUIDs (rs_p s))"
    using i(1) l by (simp_all add: run_inv_def base_inv_def loop_inv_def)
  show ?thesis
  proof (cases "send_attempt env pc b dst new cur (rs_p s) (rs_conn s)")
    case (Retry c' evs)
    have "reason_inv p0 (s\<lparr>rs_conn := c'\<rparr>)" by (rule reason_running [OF i(2) nf l]) (simp_all add: l)
    then show ?thesis by (simp add: Pinger_Run.loop_attempt_def Retry)
  next
    case (Returns err c' q evs)
    from attempt_run [OF p new(2) new(1) Returns [unfolded c]]
    have q: "p_inv p0 (Suc n) q" "done_chan q = done_chan (rs_p s)" by simp_all
    let ?s = "s\<lparr>rs_conn := c', rs_p := q\<rparr>"
    have r: "reason_inv p0 ?s" by (rule reason_running [OF i(2) nf l]) (simp_all add: l q(2))
    have "reason_inv p0 (?s\<lparr>looper := Running LSelect\<rparr>)" by (rule reason_running [OF i(2) nf l]) (simp_all add: l q(2))
    then have "reason_inv p0 ((emit evs ?s)\<lparr>looper := Running LSelect\<rparr>)" by (simp add: reason_inv_def failed_def emit_def)
    moreover have "Count q = Count p0" using q(1) by (simp add: p_inv_def)
    ultimately show ?thesis
      using reason_send_failed [of p0 "emit evs ?s" _ first] reason_again [of p0 "emit evs ?s"] r l
      by (auto simp: Pinger_Run.loop_attempt_def Returns Let_def split: option.split)
  qed (simp add: Pinger_Run.loop_attempt_def)
qed

lemma reason_recv:
  assumes i: "run_inv p0 n s" "reason_inv p0 s" and l: "looper s = Running LSelect"
  shows "reason_inv p0 (loop_recv env now r (s\<lparr>rs_queue := rest\<rparr>)) \<or>
    boom (loop_recv env now r (s\<lparr>rs_queue := rest\<rparr>)) \<noteq> None"
proof (cases "processPacket env now r (rs_p s)")
  case (Inr x)
  obtain err q evs where x: "x = (err, q, evs)" by (cases x) auto
  have p: "p_inv p0 n (rs_p s)" using i(1) by (simp add: run_inv_def base_inv_def)
  from process_run [OF p Inr [unfolded x]]
  have q: "Count q = Count p0" "done_chan q = done_chan (rs_p s)" by (auto simp: p_inv_def)
  let ?s = "s\<lparr>rs_queue := rest, rs_p := q\<rparr>"
  have "reason_inv p0 ?s"
    by (rule reason_running [OF i(2) running_not_full [OF i(1) l] l]) (simp_all add: l q(2))
  then show ?thesis
    using reason_again [of p0 "emit e ?s" LSelect for e] reason_again [of p0 "emit e (emit d ?s)" LSelect for d e] l q(1)
    by (simp add: Pinger_Run.loop_recv_def Inr x with_go_def Let_def log_fatal_def split: option.split)
qed (simp add: Pinger_Run.loop_recv_def with_go_def)

lemma reason_interval:
  assumes i: "run_inv p0 n s" "reason_inv p0 s" and l: "looper s = Running LSelect"
  shows "reason_inv p0 (loop_interval env pc now s) \<or> boom (loop_interval env pc now s) \<noteq> None"
proof -
  let ?s = "s\<lparr>interval_tick := False\<rparr>"
  have r: "reason_inv p0 ?s" "reason_inv p0 (stop_interval ?s)"
    by (rule reason_running [OF i(2) running_not_full [OF i(1) l] l]; simp add: l stop_interval_def)+
  moreover have "Count (rs_p s) = Count p0" using i(1) by (simp add: run_inv_def base_inv_def p_inv_def)
  ultimately show ?thesis
    using reason_send_begin [OF r(1), of LSelect env pc now False] running_not_full [OF i(1) l] l
    by (simp add: Pinger_Run.loop_interval_def Let_def)
qed

section \<open>Every step\<close>

text \<open>During a run \<^verbatim>\<open>Stop\<close> closes the channel or finds it closed.\<close>

lemma with_Stop: "run_inv p0 n s \<Longrightarrow> with_go (Stop (rs_p s)) f s = f (rs_p s\<lparr>done_chan := ClosedChan\<rparr>)"
  using Stop_Inr [of "rs_p s"] by (simp add: run_inv_def base_inv_def p_inv_def with_go_def)

lemma full_done [simp]: "full p0 (p\<lparr>done_chan := c\<rparr>) = full p0 p"
  by (simp add: full_def)

lemma reason_go_step:
  assumes "go_step env pc s s'" and i: "run_inv p0 n s" "reason_inv p0 s" and p: "run_ready p0" "int n < 2 ^ 63 - 1"
    and b: "boom s' = None"
  shows "reason_inv p0 s'"
  using assms(1)
proof cases
  case (watch_ctx e)
  with i waiting_watcher [OF i(1)] show ?thesis unfolding watch_ctx(1) with_Stop [OF i(1)] by (auto simp: reason_inv_def failed_def)
next
  case watch_done
  with i show ?thesis by (auto simp: reason_inv_def failed_def)
next
  case (watch_exit err)
  with i show ?thesis by (auto simp: waiting_watcher [OF i(1)] reason_inv_def hand_in_def failed_def split: option.splits)
next
  case (recv_init r)
  with i b show ?thesis
    by (auto simp: Pinger_Run.recv_init_def with_go_def reason_inv_def failed_def split: sum.splits)
next
  case recv_top
  with i b show ?thesis
    by (auto simp: Pinger_Run.recv_top_def with_go_def chan_ready_def reason_inv_def failed_def split: sum.splits)
next
  case (recv_arm b now)
  with i show ?thesis
    by (auto simp: Pinger_Run.recv_arm_def reason_inv_def failed_def split: prod.splits option.splits)
next
  case (recv_read b r)
  with i show ?thesis using assms(6)
    by (auto simp: Pinger_Run.recv_read_def with_go_def emit_def Let_def reason_inv_def failed_def
        split: prod.splits option.splits sum.splits if_splits)
next
  case (recv_quit k)
  with i show ?thesis by (auto simp: chan_ready_def reason_inv_def failed_def)
next
  case (recv_push k)
  with i show ?thesis by (auto simp: Pinger_Run.recv_push_def reason_inv_def failed_def)
next
  case (recv_stop err)
  with i show ?thesis unfolding recv_stop(1) with_Stop [OF i(1)]
    by (cases err) (auto simp: reason_inv_def failed_def)
next
  case (recv_exit err)
  with i show ?thesis
    by (auto simp: waiting_receiver [OF i(1)] reason_inv_def hand_in_def failed_def split: option.splits)
next
  case (loop_init now)
  then have "\<not> Timeout (rs_p s) \<le> 0" "\<not> Interval (rs_p s) \<le> 0" "Count (rs_p s) = Count p0"
    using i(1) p(1) by (auto simp: run_inv_def base_inv_def p_inv_def run_ready_def)
  moreover have r: "reason_inv p0 (s\<lparr>timeout_on := True, interval_on := True\<rparr>)"
    by (rule reason_running [OF i(2) running_not_full [OF i(1) loop_init(2)] loop_init(2)]) (simp_all add: loop_init(2))
  ultimately show ?thesis
    using reason_send_begin [OF r, of LInit env pc now True]
      running_not_full [OF i(1) loop_init(2)] loop_init b by (auto simp: Pinger_Run.loop_init_def)
next
  case (loop_attempt first dst cur b' new)
  with reason_attempt [OF i loop_attempt(2,3) p(2), of env pc] b show ?thesis by auto
next
  case loop_done
  then have "full p0 (rs_p s) \<or> failed s" using i(2) by (simp add: chan_ready_def reason_inv_def)
  with reason_return [OF i(2) _ loop_done(2), of None] loop_done(1) show ?thesis by simp
next
  case loop_timeout
  with i show ?thesis by (simp add: reason_inv_def)
next
  case (loop_recv r rest now)
  with reason_recv [OF i, of env now r rest] b show ?thesis by auto
next
  case loop_recv_closed
  with b show ?thesis by simp
next
  case (loop_interval now)
  with reason_interval [OF i, of env pc now] b show ?thesis by auto
next
  case (loop_stop err)
  with i show ?thesis unfolding loop_stop(1) with_Stop [OF i(1)]
    by (cases err) (auto simp: reason_inv_def failed_def)
next
  case (loop_exit err)
  with i have "main s = Waiting" by (auto simp: run_inv_def loop_inv_def)
  with loop_exit i show ?thesis by (auto simp: reason_inv_def hand_in_def failed_def split: option.splits)
next
  case main_wait
  with i show ?thesis by (auto simp: reason_inv_def failed_def)
next
  case (main_close r)
  with i b show ?thesis by (auto simp: Pinger_Run.main_close_def reason_inv_def failed_def)
next
  case (main_finish r)
  with i show ?thesis by (auto simp: emit_def reason_inv_def failed_def)
qed

lemma reason_world_step:
  assumes "world_step wd s s'" "undisturbed wd" "reason_inv p0 s"
  shows "reason_inv p0 s'"
  using assms by cases (auto simp: undisturbed_def reason_inv_def failed_def)

section \<open>Every run, every call\<close>

lemma reached_reason:
  assumes "reached env pc wd s0 n s" "run_begin pc c p = Inr s0" "run_ready p" "int n < 2 ^ 63" "undisturbed wd"
  shows "reason_inv p s"
  using assms
proof (induction rule: reached.induct)
  case reached_0
  then show ?case by (auto simp: run_begin_def reason_inv_def run_ready_def configured_def split: prod.splits option.splits)
next
  case (reached_Suc n s s')
  then have i: "run_inv p n s" "reason_inv p s" using reached_inv [OF reached_Suc(1)] by simp_all
  have "boom s' = None"
    using run_invD(1) [OF reached_inv [OF reached.reached_Suc [OF reached_Suc(1,2)]]] reached_Suc.prems by blast
  with reason_go_step [OF _ i] reason_world_step [OF _ _ i(2)] reached_Suc show ?case
    unfolding run_step_def by (metis add.commute less_diff_eq of_nat_Suc)
qed

text \<open>A run that is done without an error has all the replies it was to wait for.\<close>

lemma done_full:
  assumes "reason_inv p0 s" "run_inv p0 n s" "main s = Done None"
  shows "full p0 (rs_p s)"
proof -
  have e: "receiver s = Exited" "looper s = Exited"
    using run_invD(5) [OF assms(2)] run_inv_looper(1) [OF assms(2)] assms(3) by simp_all
  then have "full p0 (rs_p s) \<or> failed s" "group_err s = None" using assms(1,3) by (auto simp: reason_inv_def)
  with e show ?thesis by (simp add: failed_def)
qed

lemma undisturbed_on [simp]: "undisturbed (net_on wd) = undisturbed wd"
  by (simp add: undisturbed_def)

end
