(* ===== verification/Run_Success.thy ===== *)
theory Run_Success
  imports Run_Reasons
begin

text \<open>
  A ping that works: against a host that answers every request, a run of \<^verbatim>\<open>ping.go\<close> with a positive
  \<^verbatim>\<open>Count\<close> has a schedule on which every request is answered and the call returns no error. All
  parts take part: the requests \<^verbatim>\<open>sendICMP\<close> builds, the reads of \<^verbatim>\<open>recvICMP\<close>, \<^verbatim>\<open>processPacket\<close>, the
  loop's counting and the end of the goroutines.
\<close>

section \<open>A host that answers\<close>

text \<open>
  On a connection in \<open>I\<close> a request of the pinger's size can be written; then, after what the network
  may do, a read into a buffer of the receiver's length returns the echo of its data, behind a valid
  IP header or none and with bytes after it or none, and the connection is in \<open>I\<close> again.
\<close>

definition echo_msg :: "icmp_type \<Rightarrow> 'u pinger \<Rightarrow> int \<Rightarrow> byte list \<Rightarrow> icmp_message" where
  "echo_msg ty p n d = \<lparr>msg_Type = ty, msg_Code = 0, msg_Body = Echo (ident p) n d\<rparr>"

definition answers :: "'u env \<Rightarrow> 'c packet_conn \<Rightarrow> 'c world \<Rightarrow> 'u pinger \<Rightarrow> ('c \<Rightarrow> bool) \<Rightarrow> bool" where
  "answers env pc wd p I \<longleftrightarrow>
     (\<forall>c. I c \<longrightarrow> ICMPRequestType pc c \<in> echo_types \<and>
       (\<forall>n d b dst. int (length d) = Size p \<and> send_dst p = Inr dst \<and>
          icmp_Marshal env (echo_msg (ICMPRequestType pc c) p n d) = Inr b \<longrightarrow>
          (\<exists>c1 m c2. WriteTo pc c b dst = (c1, m, None) \<and> (c2 = c1 \<or> traffic wd c1 c2) \<and>
            (\<forall>t buf. int (length buf) = getMessageLength (GOOS env) p + recv_offset (GOOS env) p \<longrightarrow>
              (\<exists>c3 c4 h rb pad k hops a. SetReadDeadline pc c2 t = (c3, None) \<and>
                 ReadFrom pc c3 buf = (c4, h @ rb @ pad, k, hops, a, None) \<and> I c4 \<and>
                 icmp_Marshal env (echo_msg (reply_type p) p n d) = Inr rb \<and>
                 valid_header (ipv4 p) h \<and> address_known p a)))))"

text \<open>A pinger that can use such a host; the UUIDs do not run out.\<close>

definition can_ping :: "'u env \<Rightarrow> 'u pinger \<Rightarrow> bool" where
  "can_ping env p \<longleftrightarrow> run_ready p \<and> uuid_laws env \<and> icmp_laws env \<and> 0 \<le> ident p \<and> ident p \<le> 65535 \<and> 24 \<le> Size p \<and>
     0 < Count p \<and> Count p < 2 ^ 58 \<and> (\<forall>us :: 'u list. int (length us) \<le> Count p \<longrightarrow> (\<exists>u. u \<notin> set us))"

lemma fresh_uuid: "can_ping env (p :: 'u pinger) \<Longrightarrow> int (length us) \<le> Count p \<Longrightarrow> \<exists>u :: 'u. u \<notin> set us"
  unfolding can_ping_def by blast

lemma answersD:
  assumes "answers env pc wd p I" "I c" "int (length d) = Size p" "send_dst p = Inr dst"
    "icmp_Marshal env (echo_msg (ICMPRequestType pc c) p n d) = Inr b"
  shows "\<exists>c1 m c2. WriteTo pc c b dst = (c1, m, None) \<and> (c2 = c1 \<or> traffic wd c1 c2) \<and>
    (\<forall>t buf. int (length buf) = getMessageLength (GOOS env) p + recv_offset (GOOS env) p \<longrightarrow>
      (\<exists>c3 c4 h rb pad k hops a. SetReadDeadline pc c2 t = (c3, None) \<and>
         ReadFrom pc c3 buf = (c4, h @ rb @ pad, k, hops, a, None) \<and> I c4 \<and>
         icmp_Marshal env (echo_msg (reply_type p) p n d) = Inr rb \<and> valid_header (ipv4 p) h \<and> address_known p a))"
  using assms(1) [unfolded answers_def, rule_format, OF assms(2), THEN conjunct2, rule_format, OF conjI, OF assms(3) conjI,
      OF assms(4,5)] .

section \<open>Between two requests\<close>

definition calm :: "('c \<Rightarrow> bool) \<Rightarrow> 'u pinger \<Rightarrow> int \<Rightarrow> ('u, 'c) run_state \<Rightarrow> bool" where
  "calm I p k s \<longleftrightarrow> watcher s = Running () \<and> main s = Waiting \<and> rs_queue s = [] \<and> receiver s = Running RTop \<and>
     group_err s = None \<and> (running (looper s) \<longrightarrow> interval_on s) \<and> done_chan (rs_p s) = OpenChan \<and> I (rs_conn s) \<and>
     PacketsSent (rs_p s) = k \<and> PacketsRecv (rs_p s) = k \<and> ident (rs_p s) = ident p \<and>
     int (length (trackerUUIDs (rs_p s))) \<le> k + 1"

text \<open>The looper has a request ready to be written.\<close>

definition sending :: "'u env \<Rightarrow> 'c packet_conn \<Rightarrow> ('c \<Rightarrow> bool) \<Rightarrow> 'u pinger \<Rightarrow> int \<Rightarrow> ('u, 'c) run_state \<Rightarrow> bool" where
  "sending env pc I p k s \<longleftrightarrow> calm I p k s \<and>
     (\<exists>first dst enc b. looper s = Running (LSend first dst (last (trackerUUIDs (rs_p s))) b) \<and> send_dst (rs_p s) = Inr dst \<and>
        uuid_Marshal env (last (trackerUUIDs (rs_p s))) = Inr enc \<and>
        icmp_Marshal env (echo_msg (ICMPRequestType pc (rs_conn s)) (rs_p s) (sequence (rs_p s))
          (send_payload (rs_p s) 0 enc)) = Inr b)"

lemma send_begin_total:
  assumes "uuid_laws env" "icmp_laws env" "tracked p" "0 \<le> ident p" "ident p \<le> 65535" "ipaddr p \<noteq> None"
    "ICMPRequestType pc c \<in> echo_types"
  shows "\<exists>dst enc b. send_begin env pc now c p = Inr (Inr (dst, last (trackerUUIDs p), b)) \<and> send_dst p = Inr dst \<and>
    uuid_Marshal env (last (trackerUUIDs p)) = Inr enc \<and>
    icmp_Marshal env (echo_msg (ICMPRequestType pc c) p (sequence p) (send_payload p now enc)) = Inr b"
proof -
  have t: "trackerUUIDs p \<noteq> []" "0 \<le> sequence p" "sequence p \<le> 65535" using assms(3) by (simp_all add: tracked_def)
  obtain enc where enc: "uuid_Marshal env (last (trackerUUIDs p)) = Inr enc" using uuid_lawsE [OF assms(1)] by blast
  obtain b where b: "icmp_Marshal env (echo_msg (ICMPRequestType pc c) p (sequence p) (send_payload p now enc)) = Inr b"
    using icmp_lawsE [OF assms(2,7,4,5) t(2,3), of "send_payload p now enc"] unfolding echo_msg_def by blast
  obtain dst where "send_dst p = Inr dst" using assms(6)
    by (cases "protocol p = ''udp''") (auto simp: send_dst_def)
  then show ?thesis using enc b t(1)
    by (simp add: send_begin_def getCurrentTrackerUUID_last Let_def echo_msg_def)
qed

section \<open>One exchange\<close>

text \<open>The receiver goes round its loop once and hands a packet on.\<close>

lemma read_steps:
  assumes r: "reached env pc wd s0 n s" and b: "boom s = None" "rs_closed s = False" "rs_queue s = []"
    and v: "receiver s = Running RTop" and d: "done_chan (rs_p s) = OpenChan"
    and l: "i64 (getMessageLength (GOOS env) (rs_p s) + recv_offset (GOOS env) (rs_p s)) = int m"
    and arm: "SetReadDeadline pc (rs_conn s) (0 + rs_delay s) = (c3, None)"
    and rd: "ReadFrom pc c3 (replicate m 0) = (c4, bs, k, hops, a, None)"
  shows "reached env pc wd s0 (n + 4)
    (s\<lparr>rs_conn := c4, rs_queue := [\<lparr>bytes = bs, nbytes = k, ttl = hops, src_addr = a\<rparr>], receiver := Running RTop\<rparr>)"
proof -
  let ?k = "\<lparr>bytes = bs, nbytes = k, ttl = hops, src_addr = a\<rparr>"
  let ?s1 = "s\<lparr>receiver := Running (RArm (replicate m 0))\<rparr>"
  let ?s2 = "s\<lparr>rs_conn := c3, receiver := Running (RRead (replicate m 0))\<rparr>"
  let ?s3 = "s\<lparr>rs_conn := c4, receiver := Running (RSend ?k)\<rparr>"
  have 1: "reached env pc wd s0 (Suc n) ?s1"
    using go_step.recv_top [OF v, of env pc] l d
    by (intro reached_go [OF r b(1)]) (simp add: Pinger_Run.recv_top_def chan_ready_def make_bytes_def with_go_def)
  have 2: "reached env pc wd s0 (Suc (Suc n)) ?s2"
    using go_step.recv_arm [of ?s1 "replicate m 0" env pc 0] arm b
    by (intro reached_go [OF 1]) (simp_all add: Pinger_Run.recv_arm_def)
  have 3: "reached env pc wd s0 (Suc (Suc (Suc n))) ?s3"
    using go_step.recv_read [of ?s2 "replicate m 0" "\<lambda>n. 0" env pc] Int63n_law_zero rd b
    by (intro reached_go [OF 2]) (simp_all add: Pinger_Run.recv_read_def Let_def)
  have "go_step env pc ?s3 (s\<lparr>rs_conn := c4, rs_queue := [?k], receiver := Running RTop\<rparr>)"
    using go_step.recv_push [of ?s3 ?k env pc] b by (simp add: Pinger_Run.recv_push_def recv_cap_def)
  with reached_go [OF 3] show ?thesis using b by (simp add: eval_nat_numeral)
qed

text \<open>What the host looks at of the pinger does not change during a run.\<close>

lemma same_host:
  assumes "p_inv p n q" "ident q = ident p"
  shows "send_dst q = send_dst p" "echo_msg ty q = echo_msg ty p" "reply_type q = reply_type p"
    "getMessageLength os q = getMessageLength os p" "recv_offset os q = recv_offset os p" "address_known q = address_known p"
  using assms
  by (auto simp: p_inv_def send_dst_def echo_msg_def reply_type_def getMessageLength_def linux_getMessageLength_def
      windows_getMessageLength_def other_getMessageLength_def recv_offset_def Privileged_def address_known_def fun_eq_iff
      split: goos.split net_addr.split)

text \<open>The looper's write of the request; it then waits in its \<^verbatim>\<open>select\<close>.\<close>

lemma write_step:
  assumes r: "reached env pc wd s0 n s" and l: "looper s = Running (LSend first dst cur b)"
    and bm: "boom s = None" and w: "WriteTo pc (rs_conn s) b dst = (c1, m, None)"
    and new: "new \<notin> set (trackerUUIDs (rs_p s))" "record_sent new cur (rs_p s) = Inr q"
    and c: "\<not> (0 < Count q \<and> Count q \<le> PacketsRecv q)"
  shows "\<exists>evs. reached env pc wd s0 (Suc n)
    (s\<lparr>rs_conn := c1, rs_p := q, trace := trace s @ evs, looper := Running LSelect\<rparr>)"
proof -
  let ?evs = "if OnSend (rs_p s) then [CallOnSend (out_packet (rs_p s) b)] else []"
  have "loop_attempt env pc new first dst cur b s =
    s\<lparr>rs_conn := c1, rs_p := q, trace := trace s @ ?evs, looper := Running LSelect\<rparr>"
    using c by (auto simp: Pinger_Run.loop_attempt_def send_attempt_def w new(2) Let_def emit_def loop_again_def)
  with reached_go [OF r bm go_step.loop_attempt [OF l new(1)]] show ?thesis by metis
qed

text \<open>Sending and its answer, as changes of the pinger.\<close>

lemma echo_effect:
  assumes h: "can_ping env p" "p_inv p m q0" "int m < 2 ^ 63 - 1" "ident q0 = ident p"
    and new: "new \<notin> set (trackerUUIDs q0)" and enc: "uuid_Marshal env (last (trackerUUIDs q0)) = Inr enc"
    and rb: "icmp_Marshal env (echo_msg (reply_type p) p (sequence q0) (send_payload q0 0 enc)) = Inr rb"
    and recv: "bytes recv = h @ rb @ pad" "valid_header (ipv4 p) h" "address_known p (src_addr recv)"
  obtains q q1 evs where "record_sent new (last (trackerUUIDs q0)) q0 = Inr q"
    "processPacket env 0 recv q = Inr (None, q1, evs)"
    "p_inv p (Suc m) q" "PacketsSent q = PacketsSent q0 + 1" "PacketsRecv q = PacketsRecv q0" "done_chan q = done_chan q0"
    "ident q = ident p" "length (trackerUUIDs q) \<le> length (trackerUUIDs q0) + 1"
    "PacketsSent q1 = PacketsSent q0 + 1" "PacketsRecv q1 = PacketsRecv q0 + 1" "done_chan q1 = done_chan q0"
    "ident q1 = ident p" "trackerUUIDs q1 = trackerUUIDs q" "Count q1 = Count p"
proof -
  let ?u = "last (trackerUUIDs q0)"
  note same = same_host [OF h(2,4)]
  have t: "tracked q0" "PacketsSent q0 < 2 ^ 63 - 1" and sz: "24 \<le> Size q0" "Size q0 < 2 ^ 63"
    and id: "0 \<le> ident q0" "ident q0 \<le> 65535" and laws: "uuid_laws env" "icmp_laws env" and v4: "ipv4 q0 = ipv4 p"
    using h by (auto simp: can_ping_def run_ready_def p_inv_def)
  then have "?u \<in> dom (awaitingSequences q0)" by (simp add: tracked_def)
  then obtain S where S: "awaitingSequences q0 ?u = Some S" by blast
  define q where "q = after_send new ?u S q0"
  have rs: "record_sent new ?u q0 = Inr q"
    using record_sent_eq [of q0 new ?u] t(1) S by (simp add: tracked_def q_def)
  note ts = tracked_send [OF t(1) S new t(2), folded q_def]
  have "p_inv p (Suc m) q" "ident q = ident p" "done_chan q = done_chan q0" "length (trackerUUIDs q) \<le> length (trackerUUIDs q0) + 1"
    using h(2,4) ts by (auto simp: p_inv_def q_def after_send_def Let_def)
  note q = this
  have rb': "icmp_Marshal env \<lparr>msg_Type = reply_type q0, msg_Code = 0,
      msg_Body = Echo (ident q0) (sequence q0) (send_payload q0 0 enc)\<rparr> = Inr rb"
    using rb same by (simp flip: echo_msg_def)
  have "is_i64 0" by (simp add: is_i64_def)
  from echo_answered [OF laws t id sz S new this enc rb' recv(1) recv(2) [folded v4] recv(3) [folded same(6)], of 0, folded q_def]
  obtain v evs q1 where u1: "updateStatistics (in_packet env q recv v (time_Sub 0 0) (sequence q0))
      (delete_awaiting ?u (sequence q0) q) = Inr q1"
    and p1: "\<exists>evs. processPacket env 0 recv q = Inr (None, q1, evs)" and fl: "inflight q ?u (sequence q0)" by blast
  from p1 obtain evs where p1: "processPacket env 0 recv q = Inr (None, q1, evs)" ..
  have tq: "tracked q" using q(1) by (simp add: p_inv_def)
  note k = tracked_answer [OF tq fl u1] process_run [OF q(1) p1] processPacket_config [OF p1]
  then show thesis
    using ts q by (intro that [OF rs p1 q(1) _ _ q(3,2,4)]) (auto simp: p_inv_def)
qed

text \<open>From a request ready to be written to its answer counted, in at most seven steps.\<close>

lemma exchange:
  assumes r: "reached env pc wd s0 n s" and i: "run_inv p n s" and n: "int n < 2 ^ 62" and h: "can_ping env p"
    and a: "answers env pc wd p I" and snd: "sending env pc I p k s" and k: "0 \<le> k" "k < Count p"
  shows "\<exists>n' s'. n' \<le> n + 7 \<and> reached env pc wd s0 n' s' \<and> calm I p (k + 1) s' \<and>
    looper s' = (if k + 1 < Count p then Running LSelect else Stopping None)"
proof -
  let ?q0 = "rs_p s" and ?u = "last (trackerUUIDs (rs_p s))"
  have q0: "p_inv p n ?q0" and bm: "boom s = None" using i by (simp_all add: run_inv_def base_inv_def)
  have cl: "calm I p k s" using snd by (simp add: sending_def)
  then have f: "watcher s = Running ()" "main s = Waiting" "rs_queue s = []" "receiver s = Running RTop" "group_err s = None"
    "done_chan ?q0 = OpenChan" "I (rs_conn s)" "PacketsSent ?q0 = k" "PacketsRecv ?q0 = k" "ident ?q0 = ident p"
    "int (length (trackerUUIDs ?q0)) \<le> k + 1" by (simp_all add: calm_def)
  have rc: "rs_closed s = False" using waiting_receiver [OF i] f(4) by simp
  note same = same_host [OF q0 f(10)]
  obtain first dst enc b where l: "looper s = Running (LSend first dst ?u b)" and dst: "send_dst ?q0 = Inr dst"
    and enc: "uuid_Marshal env ?u = Inr enc"
    and b: "icmp_Marshal env (echo_msg (ICMPRequestType pc (rs_conn s)) ?q0 (sequence ?q0) (send_payload ?q0 0 enc)) = Inr b"
    using snd by (auto simp: sending_def)
  have io: "interval_on s" using cl l by (simp add: calm_def)
  have sz: "24 \<le> Size ?q0" "Size ?q0 < 2 ^ 63" "Size ?q0 = Size p" and rdy: "run_ready p"
    using h q0 by (auto simp: can_ping_def p_inv_def run_ready_def)
  have "length enc = 16" using uuid_lawsE [of env ?u] h enc by (metis can_ping_def sum.inject(2))
  then have len: "int (length (send_payload ?q0 0 enc)) = Size p" using length_send_payload [of enc ?q0] sz by simp
  obtain new where new: "new \<notin> set (trackerUUIDs ?q0)" using fresh_uuid [OF h, of "trackerUUIDs ?q0"] f(11) k(2) by auto
  from answersD [OF a f(7) len dst [unfolded same] b [unfolded same]]
  obtain c1 m c2 where w: "WriteTo pc (rs_conn s) b dst = (c1, m, None)" and tr: "c2 = c1 \<or> traffic wd c1 c2"
    and rd: "\<And>t buf. int (length buf) = getMessageLength (GOOS env) p + recv_offset (GOOS env) p \<Longrightarrow>
      \<exists>c3 c4 h rb pad k hops a. SetReadDeadline pc c2 t = (c3, None) \<and>
        ReadFrom pc c3 buf = (c4, h @ rb @ pad, k, hops, a, None) \<and> I c4 \<and>
        icmp_Marshal env (echo_msg (reply_type p) p (sequence ?q0) (send_payload ?q0 0 enc)) = Inr rb \<and>
        valid_header (ipv4 p) h \<and> address_known p a"
    by auto
  let ?L = "nat (getMessageLength (GOOS env) p + recv_offset (GOOS env) p)"
  have L: "getMessageLength (GOOS env) p + recv_offset (GOOS env) p = int ?L"
    "i64 (getMessageLength (GOOS env) p + recv_offset (GOOS env) p) = int ?L"
    using buffer_length [OF i rdy, of "GOOS env"] by (simp_all add: same)
  from rd [of "replicate ?L 0" "0 + rs_delay s"] L(1)
  obtain c3 c4 hd rb pad j hops a where arm: "SetReadDeadline pc c2 (0 + rs_delay s) = (c3, None)"
    and read: "ReadFrom pc c3 (replicate ?L 0) = (c4, hd @ rb @ pad, j, hops, a, None)" and c4: "I c4"
    and rb: "icmp_Marshal env (echo_msg (reply_type p) p (sequence ?q0) (send_payload ?q0 0 enc)) = Inr rb"
    and src: "valid_header (ipv4 p) hd" "address_known p a" by auto
  let ?k = "\<lparr>bytes = hd @ rb @ pad, nbytes = j, ttl = hops, src_addr = a\<rparr>"
  obtain q q1 evs where rs: "record_sent new ?u ?q0 = Inr q" and pp: "processPacket env 0 ?k q = Inr (None, q1, evs)"
    and q: "p_inv p (Suc n) q" "PacketsSent q = PacketsSent ?q0 + 1" "PacketsRecv q = PacketsRecv ?q0" "done_chan q = done_chan ?q0"
      "ident q = ident p" "length (trackerUUIDs q) \<le> length (trackerUUIDs ?q0) + 1"
    and q1: "PacketsSent q1 = PacketsSent ?q0 + 1" "PacketsRecv q1 = PacketsRecv ?q0 + 1" "done_chan q1 = done_chan ?q0"
      "ident q1 = ident p" "trackerUUIDs q1 = trackerUUIDs q" "Count q1 = Count p"
    using echo_effect [OF h q0 _ f(10) new enc rb, of ?k hd pad] n src by auto
  have cq: "Count q = Count p" using q(1) by (simp add: p_inv_def)
  have "\<not> (0 < Count q \<and> Count q \<le> PacketsRecv q)" using cq q(3) f(9) k(2) by simp
  from write_step [OF r l bm w new rs this] obtain es where
    1: "reached env pc wd s0 (Suc n) (s\<lparr>rs_conn := c1, rs_p := q, trace := trace s @ es, looper := Running LSelect\<rparr>)" ..
  let ?s2 = "s\<lparr>rs_p := q, trace := trace s @ es, looper := Running LSelect, rs_conn := c2\<rparr>"
  obtain n2 where 2: "n2 \<le> n + 2" "reached env pc wd s0 n2 ?s2"
  proof (cases "c2 = c1")
    case True
    have "s\<lparr>rs_conn := c1, rs_p := q, trace := trace s @ es, looper := Running LSelect\<rparr> = ?s2"
      by (cases s) (simp add: True)
    with 1 show thesis by (intro that [of "Suc n"]) simp_all
  next
    case False
    with tr have "traffic wd c1 c2" by simp
    then have "reached env pc wd s0 (Suc (Suc n)) ?s2"
      using reached_world [OF 1 _ world_step.network [of wd _ c2]] bm by simp
    then show thesis by (intro that [of "Suc (Suc n)"]) simp_all
  qed
  let ?s3 = "?s2\<lparr>rs_conn := c4, rs_queue := [?k], receiver := Running RTop\<rparr>"
  have 3: "reached env pc wd s0 (n2 + 4) ?s3"
    by (rule read_steps [OF 2(2), of ?L c3 c4]) (use bm rc f q(4) arm read L(2) same_host [OF q(1,5)] in simp_all)
  let ?s4 = "loop_again (?s3\<lparr>rs_queue := [], rs_p := q1, trace := trace s @ es @ evs\<rparr>)"
  have "go_step env pc ?s3 ?s4"
    using go_step.loop_recv [of ?s3 ?k "[]" env pc 0] by (simp add: Pinger_Run.loop_recv_def pp with_go_def emit_def)
  from reached_go [OF 3 _ this] have 4: "reached env pc wd s0 (n2 + 5) ?s4" using bm by (simp add: add.commute)
  have "calm I p (k + 1) ?s4" "looper ?s4 = (if k + 1 < Count p then Running LSelect else Stopping None)"
    using f q q1 c4 io k by (auto simp: calm_def loop_again_def loop_return_def stop_interval_def)
  with 4 2(1) show ?thesis by (intro exI [of _ "n2 + 5"] exI [of _ ?s4]) simp
qed

section \<open>All of them\<close>

lemma begin_sending:
  assumes b: "run_begin pc c p = Inr s0" and h: "can_ping env p" and a: "answers env pc wd p I" and c: "I (rs_conn s0)"
  shows "\<exists>s'. reached env pc wd s0 2 s' \<and> sending env pc I p 0 s'"
proof -
  obtain u where u: "configured u p" using h by (auto simp: can_ping_def run_ready_def)
  note p = tracked_configured(1) [OF u]
  have s0: "rs_p s0 = p" "receiver s0 = Running RInit" "looper s0 = Running LInit" "boom s0 = None" "watcher s0 = Running ()"
    "main s0 = Waiting" "rs_queue s0 = []" "group_err s0 = None"
    using b by (auto simp: run_begin_def split: prod.splits option.splits)
  obtain d bo where g: "Get (\<lambda>n. 0) (newExpBackoff 50000 11) = Inr (d, bo)"
    using Get_step [OF backoff_ok_new Int63n_law_zero] by blast
  let ?s1 = "s0\<lparr>rs_delay := d, rs_backoff := bo, receiver := Running RTop\<rparr>"
  have 1: "reached env pc wd s0 (Suc 0) ?s1"
    using go_step.recv_init [OF s0(2) Int63n_law_zero, of env pc] g s0(4)
    by (intro reached_go [OF reached_0]) (simp_all add: Pinger_Run.recv_init_def with_go_def)
  have "ICMPRequestType pc (rs_conn s0) \<in> echo_types" using a c by (simp add: answers_def)
  then obtain dst enc b where sb: "send_begin env pc 0 (rs_conn s0) p = Inr (Inr (dst, last (trackerUUIDs p), b))"
    "send_dst p = Inr dst" "uuid_Marshal env (last (trackerUUIDs p)) = Inr enc"
    "icmp_Marshal env (echo_msg (ICMPRequestType pc (rs_conn s0)) p (sequence p) (send_payload p 0 enc)) = Inr b"
    using send_begin_total [of env p pc "rs_conn s0" 0] h p by (auto simp: can_ping_def run_ready_def)
  let ?s2 = "?s1\<lparr>timeout_on := True, interval_on := True, looper := Running (LSend True dst (last (trackerUUIDs p)) b)\<rparr>"
  have "0 < Timeout p" "0 < Interval p" using h by (simp_all add: can_ping_def run_ready_def)
  then have "go_step env pc ?s1 ?s2"
    using go_step.loop_init [of ?s1 env pc 0] s0 sb
    by (simp add: Pinger_Run.loop_init_def loop_send_begin_def with_go_def)
  from reached_go [OF 1 _ this] have 2: "reached env pc wd s0 2 ?s2" using s0 by (simp add: numeral_2_eq_2)
  have "PacketsSent p = 0" "PacketsRecv p = 0" "done_chan p = OpenChan" "length (trackerUUIDs p) = 1"
    using u by (simp_all add: configured_def)
  then have "sending env pc I p 0 ?s2" using s0 sb c by (auto simp: sending_def calm_def)
  with 2 show ?thesis by blast
qed

text \<open>A tick of the interval, and the next request is ready.\<close>

lemma next_sending:
  assumes r: "reached env pc wd s0 n s" and i: "run_inv p n s" and h: "can_ping env p" and a: "answers env pc wd p I"
    and c: "calm I p k s" "looper s = Running LSelect" "k < Count p"
  shows "\<exists>s'. reached env pc wd s0 (n + 2) s' \<and> sending env pc I p k s'"
proof -
  let ?q = "rs_p s"
  have q: "p_inv p n ?q" and bm: "boom s = None" using i by (simp_all add: run_inv_def base_inv_def)
  have io: "interval_on s" "I (rs_conn s)" "ident ?q = ident p" "PacketsSent ?q = k" using c by (simp_all add: calm_def)
  let ?s1 = "s\<lparr>interval_tick := True\<rparr>"
  have 1: "reached env pc wd s0 (Suc n) ?s1" by (rule reached_world [OF r bm world_step.tick_interval [OF io(1)]])
  have "ICMPRequestType pc (rs_conn s) \<in> echo_types" using a io by (simp add: answers_def)
  then obtain dst enc b where sb: "send_begin env pc 0 (rs_conn s) ?q = Inr (Inr (dst, last (trackerUUIDs ?q), b))"
    "send_dst ?q = Inr dst" "uuid_Marshal env (last (trackerUUIDs ?q)) = Inr enc"
    "icmp_Marshal env (echo_msg (ICMPRequestType pc (rs_conn s)) ?q (sequence ?q) (send_payload ?q 0 enc)) = Inr b"
    using send_begin_total [of env ?q pc "rs_conn s" 0] h q io(3) by (auto simp: can_ping_def run_ready_def p_inv_def)
  let ?s2 = "s\<lparr>interval_tick := False, looper := Running (LSend False dst (last (trackerUUIDs ?q)) b)\<rparr>"
  have "Count ?q = Count p" using q by (simp add: p_inv_def)
  then have "go_step env pc ?s1 ?s2"
    using go_step.loop_interval [of ?s1 env pc 0] c io sb
    by (simp add: Pinger_Run.loop_interval_def Let_def loop_send_begin_def with_go_def)
  from reached_go [OF 1 _ this] have "reached env pc wd s0 (n + 2) ?s2" using bm by (simp add: numeral_2_eq_2)
  moreover have "sending env pc I p k ?s2" using c io sb by (auto simp: sending_def calm_def)
  ultimately show ?thesis by blast
qed

lemma all_exchanged:
  assumes b: "run_begin pc c p = Inr s0" and h: "can_ping env p" and a: "answers env pc wd p I" and c: "I (rs_conn s0)"
    and m: "int (Suc m) \<le> Count p"
  shows "\<exists>n s. n \<le> 9 * Suc m \<and> reached env pc wd s0 n s \<and> calm I p (int (Suc m)) s \<and>
    looper s = (if int (Suc m) < Count p then Running LSelect else Stopping None)"
proof -
  have rdy: "run_ready p" "Count p < 2 ^ 58" using h by (simp_all add: can_ping_def)
  from m show ?thesis
  proof (induction m)
    case 0
    obtain s where s: "reached env pc wd s0 2 s" "sending env pc I p 0 s" using begin_sending [OF b h a c] by blast
    from exchange [OF s(1) reached_inv [OF s(1) b rdy(1)] _ h a s(2)] 0 show ?case by fastforce
  next
    case (Suc m)
    then obtain n s where s: "n \<le> 9 * Suc m" "reached env pc wd s0 n s" "calm I p (int (Suc m)) s" "looper s = Running LSelect"
      by fastforce
    have n: "int n < 2 ^ 62 - 2" using s(1) Suc.prems rdy(2) by simp
    then have i: "run_inv p n s" by (intro reached_inv [OF s(2) b rdy(1)]) simp
    have k: "int (Suc m) < Count p" using Suc.prems by simp
    from next_sending [OF s(2) i h a s(3,4) k] obtain s1 where
      s1: "reached env pc wd s0 (n + 2) s1" "sending env pc I p (int (Suc m)) s1" by blast
    have n1: "int (n + 2) < 2 ^ 62" using n by simp
    then have i1: "run_inv p (n + 2) s1" by (intro reached_inv [OF s1(1) b rdy(1)]) simp
    from exchange [OF s1(1) i1 n1 h a s1(2) _ k] obtain n' s' where
      "n' \<le> n + 2 + 7" "reached env pc wd s0 n' s'" "calm I p (int (Suc m) + 1) s'"
      "looper s' = (if int (Suc m) + 1 < Count p then Running LSelect else Stopping None)" by auto
    with s(1) show ?case by (intro exI [of _ n'] exI [of _ s']) (simp add: add.commute)
  qed
qed

section \<open>The call\<close>

lemma run_succeeds:
  assumes b: "run_begin pc c p = Inr s0" and h: "can_ping env p" and a: "answers env pc wd p I" and c: "I (rs_conn s0)"
  shows "\<exists>n s. int n \<le> 9 * Count p + 10 \<and> reached env pc wd s0 n s \<and> main s = Done None \<and> PacketsSent (rs_p s) = Count p \<and>
    PacketsRecv (rs_p s) = Count p"
proof -
  have rdy: "run_ready p" "0 < Count p" "Count p < 2 ^ 58" using h by (simp_all add: can_ping_def)
  obtain m where m: "int (Suc m) = Count p" using rdy(2) by (metis gr0_implies_Suc of_nat_0_less_iff pos_int_cases)
  then obtain n s where s: "n \<le> 9 * Suc m" "reached env pc wd s0 n s" "calm I p (Count p) s" "looper s = Stopping None"
    using all_exchanged [OF b h a c, of m] by (metis order_refl less_irrefl)
  have "int n < 2 ^ 63" using s(1) m rdy(3) by simp
  then have i: "run_inv p n s" using reached_inv [OF s(2) b rdy(1)] by blast
  have k: "watcher s = Running ()" "main s = Waiting" "receiver s = Running RTop" "group_err s = None"
    "done_chan (rs_p s) \<noteq> NilChan" "PacketsSent (rs_p s) = Count p" "PacketsRecv (rs_p s) = Count p"
    using s(3) by (simp_all add: calm_def)
  have "boom s = None" "rs_closed s = False"
    using i waiting_receiver [OF i] k(3) by (simp_all add: run_inv_def base_inv_def)
  from finishing [OF s(2) this k(2,5) s(4) k(3,1)] k obtain t where
    "reached env pc wd s0 (n + 10) t" "main t = Done None" "rs_p t = rs_p s\<lparr>done_chan := ClosedChan\<rparr>" by auto
  with s(1) m k show ?thesis by (intro exI [of _ "n + 10"] exI [of _ t]) auto
qed

text \<open>
  C4. Why a call returns without an error: if nobody cancels or stops it and its timeout does not
  strike, then \<^verbatim>\<open>Count\<close> was positive, exactly \<^verbatim>\<open>Count\<close> requests were sent, each of them was answered, no
  key is in flight, and the statistics report no loss. Without a \<^verbatim>\<open>Count\<close> such a call can only fail.
\<close>

theorem nil_means_answered:
  assumes "RunWithContext env sys rs wd p n out" "client_ready p" "int n < 2 ^ 63" "undisturbed wd" "out_err out = None"
  shows "0 < Count p \<and> PacketsSent (out_p out) = Count p \<and> PacketsRecv (out_p out) = Count p \<and>
    pending_keys (out_p out) = {} \<and> st_PacketLoss (Statistics (out_p out)) = Fin 0"
  using assms(1)
proof cases
  case (ran v c q evs s0 s r)
  have d: "done_chan p \<noteq> NilChan" by (rule client_books(4) [OF assms(2)])
  obtain ls where q: "located p q" "24 \<le> Size p"
    using prepared_pinger(3) [OF ran(2) d refl] by blast
  note ready = located_ready [OF q(1) assms(2) q(2)]
  have o: "out_p out = rs_p s" "main s = Done None" using ran(1,5) assms(5) by (simp_all add: closed_outcome_def)
  have i: "run_inv q n s" using reached_inv [OF ran(4,3) ready assms(3)] .
  have fl: "full q (rs_p s)"
    using done_full [OF reached_reason [OF ran(4,3) ready assms(3)] i o(2)] assms(4) by simp
  have b: "PacketsSent (rs_p s) = PacketsRecv (rs_p s) + int (card (pending_keys (rs_p s)))"
    "finite (pending_keys (rs_p s))" "PacketsSent (rs_p s) < 2 ^ 63"
    using run_invD(8) [OF i] by (simp_all add: tracked_def)
  have cq: "Count q = Count p" using located_fields [OF q(1)] by simp
  have k: "0 < Count p" "Count p \<le> PacketsRecv (rs_p s)" using fl cq by (simp_all add: full_def)
  then have "PacketsSent (rs_p s) \<le> Count p" using run_invD(9) [OF i] cq by simp
  with b(1) k(2) have c: "PacketsSent (rs_p s) = Count p" "PacketsRecv (rs_p s) = Count p" "card (pending_keys (rs_p s)) = 0"
    by linarith+
  have "packet_loss (Count p) (Count p) = Fin 0"
    using packet_loss_bounds [of "Count p" "Count p"] k(1) b(3) c(1) by (auto simp: is_i64_def)
  with c k(1) b(2) show ?thesis by (simp add: o(1) Statistics_def Let_def)
qed (use assms(5) in \<open>simp_all add: closed_outcome_def\<close>)

text \<open>
  C5. A ping can succeed: where set-up ends in a connection, a run with a positive \<^verbatim>\<open>Count\<close> against a
  host that answers every request (\<open>answers\<close>) has a schedule of at most nine steps per request and ten
  more on which the call returns without an error, and \<^verbatim>\<open>Count\<close> requests were sent and as many
  replies counted.
\<close>

theorem responsive_host:
  assumes "prepare env sys rs p = Inr (Ready v c q evs)" "run_begin (conn_methods (GOOS env) sys v) c q = Inr s0"
    and "client_ready p" "can_ping env q" "answers env (conn_methods (GOOS env) sys v) (net_on wd) q I" "I (rs_conn s0)"
  shows "\<exists>n out. int n \<le> 9 * Count p + 10 \<and> RunWithContext env sys rs wd p n out \<and> out_err out = None \<and>
    PacketsSent (out_p out) = Count p \<and> PacketsRecv (out_p out) = Count p"
proof -
  have "located p q" using prepared_pinger(3) [OF assms(1) client_books(4) [OF assms(3)] refl] by blast
  then have "Count q = Count p" by (simp add: located_fields)
  with run_succeeds [OF assms(2,4,5,6)] obtain n s where s: "int n \<le> 9 * Count p + 10"
    "reached env (conn_methods (GOOS env) sys v) (net_on wd) s0 n s" "main s = Done None" "PacketsSent (rs_p s) = Count p"
    "PacketsRecv (rs_p s) = Count p" by auto
  from RunWithContext.ran [OF assms(1,2) s(2,3)] s show ?thesis
    by (intro exI [of _ n] exI) (auto simp: closed_outcome_def)
qed

section \<open>Witnesses\<close>

text \<open>A socket is the list of the replies not read yet; a request's reply is the request with another type.\<close>

definition echo_xnet :: "byte list list xnet" where
  "echo_xnet = \<lparr>xn_Close = (\<lambda>s. (s, None)), xn_SetReadDeadline = (\<lambda>s t. (s, None)),
     xn_SetControlMessage = (\<lambda>s f b. (s, None)), xn_SetHops = (\<lambda>s n. (s, None)), xn_SetClass = (\<lambda>s n. (s, None)),
     xn_ReadFrom = (\<lambda>s b. case s of [] \<Rightarrow> (s, b, 0, None, AddrOther 0, Some (ExternalError 0))
       | r # s \<Rightarrow> (s, r @ drop (length r) b, int (length r), None, AddrUDP [10, 0, 0, 1] '''', None)),
     xn_WriteTo = (\<lambda>s b cm dst. (s @ [0 # tl b], int (length b), None)),
     xn_Assemble = (\<lambda>is. None), xn_SetBPF = (\<lambda>s is. (s, None)),
     xn_c_is_struct = (\<lambda>s. True), xn_fd_is_struct = (\<lambda>s. True), xn_pfd_is_struct = (\<lambda>s. True),
     xn_Sysfd = (\<lambda>s. 3), xn_Setsockopt = (\<lambda>s fd lvl opt v. (s, None))\<rparr>"

definition echo_sys :: "byte list list sys" where
  "echo_sys = \<lparr>ListenPacket = \<lambda>nw a. Inr [], xn4 = echo_xnet, xn6 = echo_xnet,
     InterfaceByName = \<lambda>n. Inl (ExternalError 1), ParseIP = \<lambda>a. None\<rparr>"

definition echo_pinger :: "byte pinger" where
  "echo_pinger = sample_pinger\<lparr>Count := 1, OnFinish := True\<rparr>"

definition echo_conn :: "byte list list icmp_conn" where
  "echo_conn = \<lparr>sock = [], conn_ttl = 64, ifIndex = 0, source = []\<rparr>"

abbreviation echo_methods :: "byte list list icmp_conn packet_conn" where
  "echo_methods \<equiv> conn_methods Linux echo_sys True"

lemma echo_prepare:
  "prepare (sample_env Linux) echo_sys sample_resolver echo_pinger = Inr (Ready True echo_conn echo_pinger [])"
  by (simp add: prepare_def echo_pinger_def sample_pinger_def New_def listen_def ipv4Proto_def Privileged_def echo_conn_def
      new_conn_def echo_sys_def configure_def conn_methods_def icmpv4Conn_methods_def icmpConn_SetTTL_def)

lemma echo_begin: "\<exists>s0. run_begin echo_methods echo_conn echo_pinger = Inr s0 \<and> rs_conn s0 = echo_conn"
  by (simp add: run_begin_def conn_methods_def icmpv4Conn_methods_def icmpv4Conn_SetFlagTTL_def on_sock_def
      echo_sys_def echo_xnet_def echo_conn_def)

lemma echo_client: "client_ready echo_pinger"
proof -
  have "configured 0 echo_pinger" using sample_configured by (simp add: echo_pinger_def configured_def)
  then show ?thesis using sample_client by (auto simp: client_ready_def echo_pinger_def)
qed

lemma echo_can_ping: "can_ping (sample_env Linux) echo_pinger"
proof -
  have "\<exists>u. u \<notin> set us" if "int (length us) \<le> 1" for us :: "byte list"
  proof (cases us)
    case (Cons a vs)
    with that show ?thesis by (intro exI [of _ "a + 1"]) simp
  qed simp
  moreover have "located echo_pinger echo_pinger" "24 \<le> Size echo_pinger" "Count echo_pinger = 1" "ident echo_pinger = 7"
    by (simp_all add: echo_pinger_def sample_pinger_def New_def located_def)
  ultimately show ?thesis
    using located_ready [OF _ echo_client] uuid_laws_sample icmp_laws_sample by (simp add: can_ping_def)
qed

lemma echo_answers: "answers (sample_env Linux) echo_methods wd echo_pinger (\<lambda>c. c = echo_conn)"
  unfolding answers_def
proof (intro allI impI conjI; (elim conjE)?)
  fix c n d b dst assume c: "c = echo_conn"
    and b: "icmp_Marshal (sample_env Linux) (echo_msg (ICMPRequestType echo_methods c) echo_pinger n d) = Inr b"
    and d: "int (length d) = Size echo_pinger"
  let ?r = "[0, 0, 0, 0, word_of_int (7 div 256), 7, word_of_int (n div 256), word_of_int n] @ d"
  have p: "ident echo_pinger = 7" "ipv4 echo_pinger" "Size echo_pinger = 24"
    by (simp_all add: echo_pinger_def sample_pinger_def New_def ip_of_def)
  have "b \<noteq> []" and r: "0 # tl b = ?r"
    using b p by (auto simp: sample_env_def sample_Marshal_def echo_msg_def c conn_methods_def icmpv4Conn_methods_def)
  let ?c1 = "echo_conn\<lparr>sock := [?r]\<rparr>"
  have w: "WriteTo echo_methods c b dst = (?c1, int (length b), None)"
    using r by (simp add: conn_methods_def icmpv4Conn_methods_def WriteTo_spec c echo_sys_def echo_xnet_def echo_conn_def)
  have m: "icmp_Marshal (sample_env Linux) (echo_msg (reply_type echo_pinger) echo_pinger n d) = Inr ?r"
    using p by (simp add: sample_env_def sample_Marshal_def echo_msg_def reply_type_def ipv4_ICMPTypeEchoReply_def)
  have rd: "\<exists>c3 c4 h rb pad k hops a. SetReadDeadline echo_methods ?c1 t = (c3, None) \<and>
      ReadFrom echo_methods c3 buf = (c4, h @ rb @ pad, k, hops, a, None) \<and> c4 = echo_conn \<and>
      icmp_Marshal (sample_env Linux) (echo_msg (reply_type echo_pinger) echo_pinger n d) = Inr rb \<and>
      valid_header (ipv4 echo_pinger) h \<and> address_known echo_pinger a" for t buf
  proof (intro exI conjI)
    show "SetReadDeadline echo_methods ?c1 t = (?c1, None)"
      by (simp add: conn_methods_def icmpv4Conn_methods_def icmpConn_SetReadDeadline_def on_sock_def echo_sys_def echo_xnet_def
          echo_conn_def)
    show "ReadFrom echo_methods ?c1 buf =
        (echo_conn, [] @ ?r @ drop (length ?r) buf, int (length ?r), - 1, AddrUDP [10, 0, 0, 1] '''', None)"
      by (simp add: conn_methods_def icmpv4Conn_methods_def icmpv4Conn_ReadFrom_def on_sock_def echo_sys_def echo_xnet_def
          echo_conn_def)
  qed (simp_all add: m valid_header_def address_known_def del: append_Cons append_Nil)
  show "\<exists>c1 m c2. WriteTo echo_methods c b dst = (c1, m, None) \<and> (c2 = c1 \<or> traffic wd c1 c2) \<and>
      (\<forall>t buf. int (length buf) = getMessageLength (GOOS (sample_env Linux)) echo_pinger +
          recv_offset (GOOS (sample_env Linux)) echo_pinger \<longrightarrow>
        (\<exists>c3 c4 h rb pad k hops a. SetReadDeadline echo_methods c2 t = (c3, None) \<and>
           ReadFrom echo_methods c3 buf = (c4, h @ rb @ pad, k, hops, a, None) \<and> c4 = echo_conn \<and>
           icmp_Marshal (sample_env Linux) (echo_msg (reply_type echo_pinger) echo_pinger n d) = Inr rb \<and>
           valid_header (ipv4 echo_pinger) h \<and> address_known echo_pinger a))"
    by (rule exI, rule exI, rule exI, rule conjI [OF w], rule conjI [OF disjI1 [OF refl]]) (intro allI impI, rule rd)
qed (simp add: conn_methods_def icmpv4Conn_methods_def icmpv4Conn_ICMPRequestType_def echo_types_def)

text \<open>A world that does nothing.\<close>

definition still :: "'s world" where
  "still = \<lparr>may_cancel = False, may_stop = False, may_time_out = False, traffic = (\<lambda>c c'. False)\<rparr>"

lemma echo_call:
  "\<exists>n out. int n \<le> 19 \<and> RunWithContext (sample_env Linux) echo_sys sample_resolver still echo_pinger n out \<and> out_err out = None"
proof -
  obtain s0 where s0: "run_begin echo_methods echo_conn echo_pinger = Inr s0" "rs_conn s0 = echo_conn" using echo_begin by blast
  have os: "GOOS (sample_env Linux) = Linux" "Count echo_pinger = 1" by (simp_all add: sample_env_def echo_pinger_def)
  obtain n s where s: "int n \<le> 9 * Count echo_pinger + 10"
    "reached (sample_env Linux) echo_methods (net_on still) s0 n s" "main s = Done None"
    using run_succeeds [OF s0(1) echo_can_ping echo_answers s0(2), where wd = "net_on still"] by blast
  have "int n \<le> 19" using s(1) by (simp add: os)
  with RunWithContext.ran [OF echo_prepare, unfolded os, OF s0(1) s(2,3)] show ?thesis
    by (intro exI [of _ n] exI conjI) (assumption | simp add: closed_outcome_def)+
qed

text \<open>Its run, to the end: \<^verbatim>\<open>OnFinish\<close> has been called, once and last.\<close>

theorem run_finish_once_witness:
  "\<exists>s0 n s. run_begin echo_methods echo_conn echo_pinger = Inr s0 \<and>
     reached (sample_env Linux) echo_methods (net_on silent) s0 n s \<and> main s = Done None \<and>
     count_events is_finish_event (trace s) = 1 \<and> last (trace s) = CallOnFinish (Statistics (rs_p s))"
proof -
  obtain s0 where s0: "run_begin echo_methods echo_conn echo_pinger = Inr s0" "rs_conn s0 = echo_conn" using echo_begin by blast
  obtain n s where s: "int n \<le> 9 * Count echo_pinger + 10"
    "reached (sample_env Linux) echo_methods (net_on silent) s0 n s" "main s = Done None"
    using run_succeeds [OF s0(1) echo_can_ping echo_answers s0(2), where wd = "net_on silent"] by blast
  have p: "run_ready echo_pinger" "OnFinish echo_pinger" "int n < 2 ^ 63"
    using echo_can_ping s(1) by (simp_all add: can_ping_def echo_pinger_def)
  from run_finish_once [OF s0(1) p(1) s(2) p(3)] s(3) p(2) obtain evs where
    "trace s = evs @ [CallOnFinish (Statistics (rs_p s))]" "count_events is_finish_event evs = 0" by auto
  then have "count_events is_finish_event (trace s) = 1" "last (trace s) = CallOnFinish (Statistics (rs_p s))"
    by (simp_all add: count_events_def)
  with s0(1) s(2,3) show ?thesis by blast
qed

theorem responsive_host_witness:
  "\<exists>n out. int n \<le> 19 \<and> RunWithContext (sample_env Linux) echo_sys sample_resolver silent echo_pinger n out \<and>
     out_err out = None \<and> PacketsRecv (out_p out) = 1"
proof -
  obtain s0 where s0: "run_begin echo_methods echo_conn echo_pinger = Inr s0" "rs_conn s0 = echo_conn" using echo_begin by blast
  have os: "GOOS (sample_env Linux) = Linux" "Count echo_pinger = 1" by (simp_all add: sample_env_def echo_pinger_def)
  note responsive_host [OF echo_prepare _ echo_client echo_can_ping, unfolded os, OF s0(1) echo_answers s0(2)]
  then have "\<exists>n out. int n \<le> 9 * 1 + 10 \<and> RunWithContext (sample_env Linux) echo_sys sample_resolver silent echo_pinger n out \<and>
      out_err out = None \<and> PacketsSent (out_p out) = 1 \<and> PacketsRecv (out_p out) = 1" .
  then show ?thesis by auto
qed

theorem nil_means_answered_witness:
  "\<exists>n out. RunWithContext (sample_env Linux) echo_sys sample_resolver still echo_pinger n out \<and> out_err out = None \<and>
     PacketsSent (out_p out) = 1 \<and> st_PacketLoss (Statistics (out_p out)) = Fin 0"
proof -
  obtain n out where out: "int n \<le> 19" "RunWithContext (sample_env Linux) echo_sys sample_resolver still echo_pinger n out"
    "out_err out = None" using echo_call by blast
  have "int n < 2 ^ 63" "undisturbed (still :: byte list list world)" using out(1) by (simp_all add: undisturbed_def still_def)
  from nil_means_answered [OF out(2) echo_client this out(3)] out(2,3) show ?thesis by (auto simp: echo_pinger_def)
qed

end
