(* ===== verification/Ping_Command.thy ===== *)
theory Ping_Command
  imports Pinger_Setup
begin

text \<open>
  The command \<^verbatim>\<open>cmd/ping/ping.go\<close>: what \<^verbatim>\<open>main\<close> does with its flags, the pinger it builds, the
  callbacks it sets and what it prints. Package \<^verbatim>\<open>flag\<close> is modelled by the values the flags
  have after \<^verbatim>\<open>flag.Parse\<close>; a printed line is a value of \<open>out_line\<close>, with what its format is given. The
  interrupt handler calls \<^verbatim>\<open>Stop\<close>, which the schedules of \<open>Pinger_Run\<close> allow at any time.
\<close>

section \<open>Flags\<close>

record flags =
  f_t :: duration
  f_i :: duration
  f_c :: int
  f_s :: int
  f_l :: int
  f_I :: string
  f_Q :: int
  f_privileged :: bool

definition default_flags :: flags where
  "default_flags = \<lparr>f_t = 1000000000 * 100000, f_i = 1000000000, f_c = - 1, f_s = 24, f_l = 64, f_I = '''',
     f_Q = 192, f_privileged = False\<rparr>"

section \<open>Output\<close>

datatype out_line =
    UsageText
  | ErrorLine go_error
  | RecvLine packet_info
  | DupLine packet_info
  | StatisticsLines statistics
  | PingLine string "ip_addr option"
  | FailedLine go_error

text \<open>The callbacks \<^verbatim>\<open>OnRecv\<close>, \<^verbatim>\<open>OnDuplicateRecv\<close> and \<^verbatim>\<open>OnFinish\<close> print; the logger writes elsewhere.\<close>

fun print_event :: "event \<Rightarrow> out_line list" where
  "print_event (CallOnRecv pkt) = [RecvLine pkt]"
| "print_event (CallOnDuplicateRecv pkt) = [DupLine pkt]"
| "print_event (CallOnFinish stats) = [StatisticsLines stats]"
| "print_event _ = []"

section \<open>main\<close>

text \<open>The callbacks are set; \<^verbatim>\<open>uint8(*tclass)\<close> keeps the low eight bits.\<close>

definition set_callbacks :: "'u pinger \<Rightarrow> 'u pinger" where
  "set_callbacks p = p\<lparr>OnRecv := True, OnDuplicateRecv := True, OnFinish := True\<rparr>"

definition set_options :: "flags \<Rightarrow> 'u pinger \<Rightarrow> 'u pinger" where
  "set_options fl p =
     (let p = p\<lparr>Count := f_c fl\<rparr>;
          p = p\<lparr>Size := f_s fl\<rparr>;
          p = p\<lparr>Interval := f_i fl\<rparr>;
          p = p\<lparr>Timeout := f_t fl\<rparr>;
          p = p\<lparr>p_TTL := f_l fl\<rparr>;
          p = p\<lparr>InterfaceName := f_I fl\<rparr>;
          p = SetPrivileged (f_privileged fl) p
      in SetTrafficClass (word_of_int (f_Q fl)) p)"

text \<open>
  A run of \<^verbatim>\<open>main\<close> that returns, with the arguments behind the flags, the draws of
  \<^verbatim>\<open>New\<close>, the number of steps of the pinger's run and the lines printed.
\<close>

inductive ping_main ::
  "'u env \<Rightarrow> 's sys \<Rightarrow> resolver \<Rightarrow> 's world \<Rightarrow> flags \<Rightarrow> string list \<Rightarrow> int \<Rightarrow> 'u \<Rightarrow> nat \<Rightarrow> out_line list \<Rightarrow> bool"
  for env :: "'u env" and sys :: "'s sys" and rs :: resolver and wd :: "'s world" and fl :: flags where
  usage: "ping_main env sys rs wd fl [] r u 0 [UsageText]"
| no_pinger: "NewPinger rs host r u = Inr (Some err, p) \<Longrightarrow>
    ping_main env sys rs wd fl (host # args) r u 0 [ErrorLine err]"
| pinged: "NewPinger rs host r u = Inr (None, p) \<Longrightarrow> q = set_options fl (set_callbacks p) \<Longrightarrow>
    Run env sys rs wd q n out \<Longrightarrow>
    ping_main env sys rs wd fl (host # args) r u n
      (PingLine (get_Addr q) (get_IPAddr q) # concat (map print_event (out_trace out)) @
       (case out_err out of Some err \<Rightarrow> [FailedLine err] | None \<Rightarrow> []))"

inductive_simps ping_main_simps:
  "ping_main env sys rs wd fl [] r u n ls"
  "ping_main env sys rs wd fl (host # args) r u n ls"

section \<open>The pinger main runs\<close>

lemma set_options_fields:
  "Count (set_options fl (set_callbacks p)) = f_c fl" "Size (set_options fl (set_callbacks p)) = f_s fl"
  "Timeout (set_options fl (set_callbacks p)) = f_t fl" "Interval (set_options fl (set_callbacks p)) = f_i fl"
  "OnFinish (set_options fl (set_callbacks p))" "OnRecv (set_options fl (set_callbacks p))"
  "addr (set_options fl (set_callbacks p)) = addr p" "ipaddr (set_options fl (set_callbacks p)) = ipaddr p"
  "p_logger (set_options fl (set_callbacks p)) = p_logger p"
  by (simp_all add: set_options_def set_callbacks_def Let_def SetPrivileged_def SetTrafficClass_def)

lemma configured_set_options: "configured u p \<Longrightarrow> configured u (set_options fl (set_callbacks p))"
  by (simp add: configured_def set_options_def set_callbacks_def Let_def SetPrivileged_def SetTrafficClass_def)

lemma main_pinger_ready:
  assumes "NewPinger rs host r u = Inr (None, p)" "0 < f_t fl" "0 < f_i fl" "f_s fl \<le> 2 ^ 52"
  shows "client_ready (set_options fl (set_callbacks p))"
proof -
  have r: "Resolve rs (New host r u) = Inr (None, p)" using assms(1) by (simp add: NewPinger_def)
  then have "configured u p" "p_logger p \<noteq> None"
    using configured_Resolve [OF configured_New r] Resolve_fields(3) [OF r] by (simp_all add: New_def)
  with assms(2-4) show ?thesis
    using configured_set_options [of u p fl] by (auto simp: client_ready_def set_options_fields)
qed

text \<open>Counting printed lines is counting callbacks.\<close>

fun is_stats :: "out_line \<Rightarrow> bool" where
  "is_stats (StatisticsLines st) = True"
| "is_stats _ = False"

fun is_recv_line :: "out_line \<Rightarrow> bool" where
  "is_recv_line (RecvLine k) = True"
| "is_recv_line _ = False"

definition count_lines :: "(out_line \<Rightarrow> bool) \<Rightarrow> out_line list \<Rightarrow> int" where
  "count_lines P ls = int (length (filter P ls))"

lemma count_lines_printed:
  "count_lines is_stats (concat (map print_event evs)) = count_events is_finish_event evs"
  "count_lines is_recv_line (concat (map print_event evs)) = count_events is_recv_event evs"
proof (induction evs)
  case (Cons e evs)
  have "count_lines is_stats (print_event e) = count_events is_finish_event [e]"
    "count_lines is_recv_line (print_event e) = count_events is_recv_event [e]"
    by (cases e; simp add: count_lines_def)+
  with Cons show "count_lines is_stats (concat (map print_event (e # evs))) = count_events is_finish_event (e # evs)"
    "count_lines is_recv_line (concat (map print_event (e # evs))) = count_events is_recv_event (e # evs)"
    by (simp_all add: count_lines_def)
qed (simp_all add: count_lines_def)

lemma printed_logs: "concat (map print_event (map LogLine lgs)) = []"
  by (induction lgs) simp_all

text \<open>With a time that is not positive the looper never gets past its start.\<close>

definition bad_times :: "'u pinger \<Rightarrow> bool" where
  "bad_times p \<longleftrightarrow> Timeout p \<le> 0 \<or> Interval p \<le> 0"

definition at_start :: "('u, 'c) run_state \<Rightarrow> bool" where
  "at_start s \<longleftrightarrow> main s = Waiting \<and> bad_times (rs_p s) \<and> (boom s = None \<longrightarrow> looper s = Running LInit)"

lemma Stop_times: "Stop p = Inr q \<Longrightarrow> bad_times q = bad_times p"
  by (auto simp: Stop_def bad_times_def go_bind_Inr_iff split: if_splits)

lemma at_start_go:
  assumes "go_step env pc s s'" "at_start s" "boom s = None"
  shows "at_start s'"
  using assms(1)
proof cases
  case (loop_init now)
  with assms(2) show ?thesis by (auto simp: Pinger_Run.loop_init_def at_start_def bad_times_def)
qed (use assms(2,3) in \<open>auto simp: at_start_def with_go_def hand_in_def Pinger_Run.recv_init_def Pinger_Run.recv_top_def
    Pinger_Run.recv_arm_def Pinger_Run.recv_read_def Pinger_Run.recv_push_def emit_def Let_def Stop_times
    split: sum.split option.split prod.split\<close>)

lemma at_start_reached:
  assumes "reached env pc wd s0 n s" "at_start s0"
  shows "at_start s"
  using assms
proof (induction rule: reached.induct)
  case (reached_Suc n s s')
  have "at_start s'" if "world_step wd s s'"
    using that reached_Suc by cases (auto simp: at_start_def with_go_def Stop_times split: sum.split)
  with reached_Suc at_start_go [of env pc s s'] show ?case by (auto simp: run_step_def)
qed

lemma at_start_begin: "run_begin pc c p = Inr s0 \<Longrightarrow> bad_times p \<Longrightarrow> at_start s0"
  by (auto simp: run_begin_def at_start_def split: prod.splits option.splits)

section \<open>Properties\<close>

text \<open>
  C30. What the command prints, given positive times and a size of at most 2 to the 52: the statistics
  exactly once if a run took place and not at all otherwise; with a positive count at most so many
  replies. Without a run the output is just the usage, or the error of \<^verbatim>\<open>NewPinger\<close>, or the line \<^verbatim>\<open>PING\<close> and
  the error of \<^verbatim>\<open>Run\<close>; with one it starts with the line \<^verbatim>\<open>PING\<close>; and the usage is printed, alone,
  exactly when there is no host.
\<close>

theorem ping_main_output:
  assumes "ping_main env sys rs wd fl args r u n ls" "0 < f_t fl" "0 < f_i fl" "f_s fl \<le> 2 ^ 52" "int n < 2 ^ 63"
  shows "count_lines is_stats ls = (if 0 < n then 1 else 0) \<and>
    (0 < f_c fl \<longrightarrow> count_lines is_recv_line ls \<le> f_c fl) \<and>
    (n = 0 \<longrightarrow> ls = [UsageText] \<or> (\<exists>e. ls = [ErrorLine e]) \<or> (\<exists>a ip e. ls = [PingLine a ip, FailedLine e])) \<and>
    (0 < n \<longrightarrow> (\<exists>a ip. hd ls = PingLine a ip)) \<and>
    (ls = [UsageText] \<longleftrightarrow> args = [])"
  using assms(1)
proof cases
  case (pinged host p q out args')
  have ready: "client_ready q" using main_pinger_ready [OF pinged(3) assms(2-4)] pinged(4) by simp
  have run: "leaves q n out"
    using RunWithContext_leaves [OF _ ready assms(5)] pinged(5) by (simp add: Run_def)
  let ?fail = "case out_err out of Some err \<Rightarrow> [FailedLine err] | None \<Rightarrow> []"
  have "count_lines is_stats ls = count_events is_finish_event (out_trace out)"
    "count_lines is_recv_line ls = count_events is_recv_event (out_trace out)"
    using count_lines_printed [of "out_trace out"] pinged(2)
    by (simp_all add: count_lines_def split: option.split)
  moreover have "OnFinish q" "OnRecv q" "Count q = f_c fl"
    using set_options_fields [of fl p] by (simp_all add: pinged(4))
  moreover have "PacketsRecv (out_p out) \<le> PacketsSent (out_p out)" using run by (simp add: leaves_def)
  moreover have "\<exists>a ip e. ls = [PingLine a ip, FailedLine e]" if "n = 0"
  proof -
    have "(\<exists>lgs. out_trace out = map LogLine lgs) \<and> out_err out \<noteq> None" using run that by (simp add: leaves_def)
    then show ?thesis using pinged(2) by (auto simp: printed_logs)
  qed
  moreover have "\<exists>a ip. hd ls = PingLine a ip" using pinged(2) by simp
  moreover have "ls = [UsageText] \<longleftrightarrow> args = []" using assms(1) by (cases args) (auto simp: ping_main_simps)
  ultimately show ?thesis using run by (auto simp: leaves_def)
qed (use assms in \<open>simp_all add: count_lines_def\<close>)

text \<open>
  C40. A time of 0 or less on the command line: once \<^verbatim>\<open>run\<close> has started the program can only end in
  the panic of \<^verbatim>\<open>time.NewTicker\<close>, which is one step away, and no run ever returns.
\<close>

theorem ping_bad_times:
  assumes "f_t fl \<le> 0 \<or> f_i fl \<le> 0" "run_begin pc c (set_options fl (set_callbacks p)) = Inr s0"
  shows "(\<exists>s. reached env pc wd s0 1 s \<and> boom s = Some NonPositiveTicker) \<and>
    (\<forall>n s r. reached env pc wd s0 n s \<longrightarrow> main s \<noteq> Done r)"
proof -
  have "bad_times (set_options fl (set_callbacks p))"
    using assms(1) unfolding bad_times_def set_options_fields .
  with assms(2) have b: "at_start s0" by (rule at_start_begin)
  have n: "boom s0 = None" using assms(2) by (auto simp: run_begin_def split: prod.splits option.splits)
  let ?s = "Pinger_Run.loop_init env pc 0 s0"
  have "go_step env pc s0 ?s" using b n by (intro go_step.loop_init) (simp add: at_start_def)
  then have "reached env pc wd s0 1 ?s" using reached_go [OF reached_0 n] by simp
  moreover have "boom ?s = Some NonPositiveTicker"
    using b by (auto simp: Pinger_Run.loop_init_def at_start_def bad_times_def)
  moreover have "main s \<noteq> Done r" if "reached env pc wd s0 n s" for n s r
    using at_start_reached [OF that b] by (simp add: at_start_def)
  ultimately show ?thesis by blast
qed

section \<open>Witnesses\<close>

text \<open>Pinging "h" with a payload of 8 bytes, which is too small; and with an interval of 0.\<close>

theorem ping_main_output_witness:
  "\<exists>ls. ping_main (sample_env Linux) sample_sys sample_resolver silent (default_flags\<lparr>f_s := 8\<rparr>) [''h''] 7 0 0 ls \<and>
     count_lines is_stats ls = 0 \<and> last ls = FailedLine (E_size 8 24)"
proof -
  let ?fl = "default_flags\<lparr>f_s := 8\<rparr>"
  obtain p where p: "NewPinger sample_resolver ''h'' 7 (0 :: byte) = Inr (None, p)"
    by (simp add: NewPinger_def Resolve_def sample_resolver_def New_def Let_def)
  let ?q = "set_options ?fl (set_callbacks p)"
  have "prepare (sample_env Linux) sample_sys sample_resolver ?q = Inr (Refused (E_size 8 24) ?q [])"
    by (simp add: prepare_def set_options_fields default_flags_def)
  from refused [OF this, of "silent\<lparr>may_cancel := False\<rparr>"] obtain out where
    out: "Run (sample_env Linux) sample_sys sample_resolver silent ?q 0 out" "out_err out = Some (E_size 8 24)"
      "out_trace out = []"
    by (auto simp: Run_def)
  from pinged [OF p refl out(1), of "[]"] out(2,3) obtain ls where
    ls: "ping_main (sample_env Linux) sample_sys sample_resolver silent ?fl [''h''] 7 0 0 ls"
      "last ls = FailedLine (E_size 8 24)" by simp
  from ping_main_output [OF ls(1)] ls show ?thesis by (auto simp: default_flags_def)
qed

theorem ping_bad_times_witness:
  "\<exists>s0 s. run_begin good_conn 0 (set_options (default_flags\<lparr>f_i := 0\<rparr>) (set_callbacks sample_pinger)) = Inr s0 \<and>
     reached (sample_env Linux) good_conn silent s0 1 s \<and> boom s = Some NonPositiveTicker"
proof -
  let ?q = "set_options (default_flags\<lparr>f_i := 0\<rparr>) (set_callbacks sample_pinger)"
  obtain s0 where s0: "run_begin good_conn 0 ?q = Inr s0"
    by (simp add: run_begin_def sample_conn_def)
  with ping_bad_times [OF _ s0, of "sample_env Linux" silent] show ?thesis by auto
qed

end
