(* ===== verification/Http_Options.thy ===== *)
theory Http_Options
  imports Logger
begin

text \<open>
  The data of \<^verbatim>\<open>http.go\<close>: \<^verbatim>\<open>TraceSuite\<close>, \<^verbatim>\<open>HTTPCallInfo\<close>, the options, their constructors
  \<^verbatim>\<open>WithHTTPCaller...\<close>, the struct \<^verbatim>\<open>HTTPCaller\<close> and \<^verbatim>\<open>NewHTTPCaller\<close>. The type variable \<open>'x\<close>
  is what a client keeps in \<^verbatim>\<open>Extra\<close>, and \<open>'h\<close> is \<^verbatim>\<open>http.Client\<close>, which the code only calls. A callback is a
  function of the client: of a \<^verbatim>\<open>TraceSuite\<close> it can only write \<^verbatim>\<open>Extra\<close>, so it returns the new \<^verbatim>\<open>Extra\<close>.
\<close>

section \<open>Structs\<close>

text \<open>The zero \<^verbatim>\<open>time.Time\<close> is the first instant of the year 1.\<close>

definition zero_time :: time where
  "zero_time = - 62135596800 * 1000000000"

record 'x trace_suite =
  generalStart :: time
  generalEnd :: time
  dnsStart :: time
  dnsEnd :: time
  connStart :: time
  connEnd :: time
  tlsStart :: time
  tlsEnd :: time
  wroteHeaders :: time
  firstByteReceived :: time
  Extra :: "'x option"

record http_call_info =
  StatusCode :: int
  IsValidResponse :: bool

text \<open>
  Of packages \<^verbatim>\<open>httptrace\<close> and \<^verbatim>\<open>tls\<close>: what the hooks are called with. A
  \<^verbatim>\<open>tls.ConnectionState\<close> is only passed on, here a number that names it.
\<close>

record dns_done_info =
  dns_Addrs :: "ip_addr list"
  dns_Err :: "go_error option"
  dns_Coalesced :: bool

type_synonym dns_start_info = string
type_synonym tls_state = nat
type_synonym header = "string \<Rightarrow> string list option"

record response =
  resp_StatusCode :: int
  resp_Header :: header
  resp_Body :: nat

type_synonym 'x plain_callback = "'x trace_suite \<Rightarrow> 'x option"

record ('x, 'h) http_options =
  o_client :: "'h option"
  o_callFrequency :: duration
  o_maxConcurrentCalls :: int
  o_host :: string
  o_headers :: header
  o_method :: string
  o_body :: "byte list"
  o_timeout :: duration
  o_isValidResponse :: "(response \<Rightarrow> byte list \<Rightarrow> bool) option"
  o_onDNSStart :: "('x trace_suite \<Rightarrow> dns_start_info \<Rightarrow> 'x option) option"
  o_onDNSDone :: "('x trace_suite \<Rightarrow> dns_done_info \<Rightarrow> 'x option) option"
  o_onConnStart :: "('x trace_suite \<Rightarrow> string \<Rightarrow> string \<Rightarrow> 'x option) option"
  o_onConnDone :: "('x trace_suite \<Rightarrow> string \<Rightarrow> string \<Rightarrow> go_error option \<Rightarrow> 'x option) option"
  o_onTLSStart :: "'x plain_callback option"
  o_onTLSDone :: "('x trace_suite \<Rightarrow> tls_state \<Rightarrow> go_error option \<Rightarrow> 'x option) option"
  o_onWroteHeaders :: "'x plain_callback option"
  o_onFirstByteReceived :: "'x plain_callback option"
  o_onReq :: "'x plain_callback option"
  o_onResp :: "('x trace_suite \<Rightarrow> http_call_info \<Rightarrow> 'x option) option"
  o_logger :: "logger option"

text \<open>
  The struct \<^verbatim>\<open>HTTPCaller\<close>; of \<^verbatim>\<open>workChan\<close> the capacity, the contents and the wait group being
  part of the running state.
\<close>

record ('x, 'h) http_caller =
  client :: "'h option"
  callFrequency :: duration
  maxConcurrentCalls :: int
  url :: string
  host :: string
  headers :: header
  http_method :: string
  body :: "byte list"
  http_timeout :: duration
  isValidResponse :: "(response \<Rightarrow> byte list \<Rightarrow> bool) option"
  workChan_cap :: nat
  doneChan :: chan
  onDNSStart :: "('x trace_suite \<Rightarrow> dns_start_info \<Rightarrow> 'x option) option"
  onDNSDone :: "('x trace_suite \<Rightarrow> dns_done_info \<Rightarrow> 'x option) option"
  onConnStart :: "('x trace_suite \<Rightarrow> string \<Rightarrow> string \<Rightarrow> 'x option) option"
  onConnDone :: "('x trace_suite \<Rightarrow> string \<Rightarrow> string \<Rightarrow> go_error option \<Rightarrow> 'x option) option"
  onTLSStart :: "'x plain_callback option"
  onTLSDone :: "('x trace_suite \<Rightarrow> tls_state \<Rightarrow> go_error option \<Rightarrow> 'x option) option"
  onWroteHeaders :: "'x plain_callback option"
  onFirstByteReceived :: "'x plain_callback option"
  onReq :: "'x plain_callback option"
  onResp :: "('x trace_suite \<Rightarrow> http_call_info \<Rightarrow> 'x option) option"
  h_logger :: "logger option"

section \<open>Options\<close>

text \<open>A \<^verbatim>\<open>HTTPCallerOption\<close> is the closure one of the constructors returns.\<close>

type_synonym ('x, 'h) http_option = "('x, 'h) http_options \<Rightarrow> ('x, 'h) http_options"

definition WithHTTPCallerClient :: "'h option \<Rightarrow> ('x, 'h) http_option" where
  "WithHTTPCallerClient v = (\<lambda>opts. opts\<lparr>o_client := v\<rparr>)"

definition WithHTTPCallerCallFrequency :: "duration \<Rightarrow> ('x, 'h) http_option" where
  "WithHTTPCallerCallFrequency v = (\<lambda>opts. opts\<lparr>o_callFrequency := v\<rparr>)"

definition WithHTTPCallerMaxConcurrentCalls :: "int \<Rightarrow> ('x, 'h) http_option" where
  "WithHTTPCallerMaxConcurrentCalls v = (\<lambda>opts. opts\<lparr>o_maxConcurrentCalls := v\<rparr>)"

definition WithHTTPCallerHeaders :: "header \<Rightarrow> ('x, 'h) http_option" where
  "WithHTTPCallerHeaders v = (\<lambda>opts. opts\<lparr>o_headers := v\<rparr>)"

definition WithHTTPCallerMethod :: "string \<Rightarrow> ('x, 'h) http_option" where
  "WithHTTPCallerMethod v = (\<lambda>opts. opts\<lparr>o_method := v\<rparr>)"

definition WithHTTPCallerHost :: "string \<Rightarrow> ('x, 'h) http_option" where
  "WithHTTPCallerHost v = (\<lambda>opts. opts\<lparr>o_host := v\<rparr>)"

definition WithHTTPCallerBody :: "byte list \<Rightarrow> ('x, 'h) http_option" where
  "WithHTTPCallerBody v = (\<lambda>opts. opts\<lparr>o_body := v\<rparr>)"

definition WithHTTPCallerTimeout :: "duration \<Rightarrow> ('x, 'h) http_option" where
  "WithHTTPCallerTimeout v = (\<lambda>opts. opts\<lparr>o_timeout := v\<rparr>)"

definition WithHTTPCallerIsValidResponse :: "(response \<Rightarrow> byte list \<Rightarrow> bool) option \<Rightarrow> ('x, 'h) http_option" where
  "WithHTTPCallerIsValidResponse v = (\<lambda>opts. opts\<lparr>o_isValidResponse := v\<rparr>)"

definition WithHTTPCallerOnDNSStart ::
  "('x trace_suite \<Rightarrow> dns_start_info \<Rightarrow> 'x option) option \<Rightarrow> ('x, 'h) http_option" where
  "WithHTTPCallerOnDNSStart v = (\<lambda>opts. opts\<lparr>o_onDNSStart := v\<rparr>)"

definition WithHTTPCallerOnDNSDone ::
  "('x trace_suite \<Rightarrow> dns_done_info \<Rightarrow> 'x option) option \<Rightarrow> ('x, 'h) http_option" where
  "WithHTTPCallerOnDNSDone v = (\<lambda>opts. opts\<lparr>o_onDNSDone := v\<rparr>)"

definition WithHTTPCallerOnConnStart ::
  "('x trace_suite \<Rightarrow> string \<Rightarrow> string \<Rightarrow> 'x option) option \<Rightarrow> ('x, 'h) http_option" where
  "WithHTTPCallerOnConnStart v = (\<lambda>opts. opts\<lparr>o_onConnStart := v\<rparr>)"

definition WithHTTPCallerOnConnDone ::
  "('x trace_suite \<Rightarrow> string \<Rightarrow> string \<Rightarrow> go_error option \<Rightarrow> 'x option) option \<Rightarrow> ('x, 'h) http_option" where
  "WithHTTPCallerOnConnDone v = (\<lambda>opts. opts\<lparr>o_onConnDone := v\<rparr>)"

definition WithHTTPCallerOnTLSStart :: "'x plain_callback option \<Rightarrow> ('x, 'h) http_option" where
  "WithHTTPCallerOnTLSStart v = (\<lambda>opts. opts\<lparr>o_onTLSStart := v\<rparr>)"

definition WithHTTPCallerOnTLSDone ::
  "('x trace_suite \<Rightarrow> tls_state \<Rightarrow> go_error option \<Rightarrow> 'x option) option \<Rightarrow> ('x, 'h) http_option" where
  "WithHTTPCallerOnTLSDone v = (\<lambda>opts. opts\<lparr>o_onTLSDone := v\<rparr>)"

definition WithHTTPCallerOnWroteRequest :: "'x plain_callback option \<Rightarrow> ('x, 'h) http_option" where
  "WithHTTPCallerOnWroteRequest v = (\<lambda>opts. opts\<lparr>o_onWroteHeaders := v\<rparr>)"

definition WithHTTPCallerOnFirstByteReceived :: "'x plain_callback option \<Rightarrow> ('x, 'h) http_option" where
  "WithHTTPCallerOnFirstByteReceived v = (\<lambda>opts. opts\<lparr>o_onFirstByteReceived := v\<rparr>)"

definition WithHTTPCallerOnReq :: "'x plain_callback option \<Rightarrow> ('x, 'h) http_option" where
  "WithHTTPCallerOnReq v = (\<lambda>opts. opts\<lparr>o_onReq := v\<rparr>)"

definition WithHTTPCallerOnResp :: "('x trace_suite \<Rightarrow> http_call_info \<Rightarrow> 'x option) option \<Rightarrow> ('x, 'h) http_option" where
  "WithHTTPCallerOnResp v = (\<lambda>opts. opts\<lparr>o_onResp := v\<rparr>)"

definition WithHTTPCallerLogger :: "logger option \<Rightarrow> ('x, 'h) http_option" where
  "WithHTTPCallerLogger v = (\<lambda>opts. opts\<lparr>o_logger := v\<rparr>)"

section \<open>NewHTTPCaller\<close>

definition defaultHTTPCallFrequency :: duration where
  [simp]: "defaultHTTPCallFrequency = 1000000000"

definition defaultHTTPMaxConcurrentCalls :: int where
  [simp]: "defaultHTTPMaxConcurrentCalls = 1"

definition defaultHTTPMethod :: string where
  [simp]: "defaultHTTPMethod = ''GET''"

definition defaultTimeout :: duration where
  [simp]: "defaultTimeout = 10000000000"

text \<open>\<open>fresh\<close> is \<^verbatim>\<open>&http.Client{}\<close>; the fields without a default are zero values.\<close>

definition default_options :: "'h \<Rightarrow> ('x, 'h) http_options" where
  "default_options fresh = \<lparr>
     o_client = Some fresh,
     o_callFrequency = defaultHTTPCallFrequency,
     o_maxConcurrentCalls = defaultHTTPMaxConcurrentCalls,
     o_host = '''',
     o_headers = Map.empty,
     o_method = defaultHTTPMethod,
     o_body = [],
     o_timeout = defaultTimeout,
     o_isValidResponse = None,
     o_onDNSStart = None, o_onDNSDone = None, o_onConnStart = None, o_onConnDone = None,
     o_onTLSStart = None, o_onTLSDone = None, o_onWroteHeaders = None, o_onFirstByteReceived = None,
     o_onReq = None, o_onResp = None,
     o_logger = None\<rparr>"

text \<open>\<^verbatim>\<open>make(chan struct{}, n)\<close> panics for a negative \<open>n\<close>.\<close>

definition NewHTTPCaller :: "'h \<Rightarrow> string \<Rightarrow> ('x, 'h) http_option list \<Rightarrow> ('x, 'h) http_caller go" where
  "NewHTTPCaller fresh u options =
     (let opts = fold (\<lambda>opt. opt) options (default_options fresh)
      in if o_maxConcurrentCalls opts < 0 then Inl NegativeChanSize
         else Inr \<lparr>
           client = o_client opts,
           callFrequency = o_callFrequency opts,
           maxConcurrentCalls = o_maxConcurrentCalls opts,
           url = u,
           host = o_host opts,
           headers = o_headers opts,
           http_method = o_method opts,
           body = o_body opts,
           http_timeout = o_timeout opts,
           isValidResponse = o_isValidResponse opts,
           workChan_cap = nat (o_maxConcurrentCalls opts),
           doneChan = OpenChan,
           onDNSStart = o_onDNSStart opts,
           onDNSDone = o_onDNSDone opts,
           onConnStart = o_onConnStart opts,
           onConnDone = o_onConnDone opts,
           onTLSStart = o_onTLSStart opts,
           onTLSDone = o_onTLSDone opts,
           onWroteHeaders = o_onWroteHeaders opts,
           onFirstByteReceived = o_onFirstByteReceived opts,
           onReq = o_onReq opts,
           onResp = o_onResp opts,
           h_logger = o_logger opts\<rparr>)"

section \<open>Options as data\<close>

text \<open>The options a client can write, to state what a list of them means.\<close>

datatype ('x, 'h) opt =
    OptClient "'h option"
  | OptCallFrequency duration
  | OptMaxConcurrentCalls int
  | OptHeaders header
  | OptMethod string
  | OptHost string
  | OptBody "byte list"
  | OptTimeout duration
  | OptIsValidResponse "(response \<Rightarrow> byte list \<Rightarrow> bool) option"
  | OptOnDNSStart "('x trace_suite \<Rightarrow> dns_start_info \<Rightarrow> 'x option) option"
  | OptOnDNSDone "('x trace_suite \<Rightarrow> dns_done_info \<Rightarrow> 'x option) option"
  | OptOnConnStart "('x trace_suite \<Rightarrow> string \<Rightarrow> string \<Rightarrow> 'x option) option"
  | OptOnConnDone "('x trace_suite \<Rightarrow> string \<Rightarrow> string \<Rightarrow> go_error option \<Rightarrow> 'x option) option"
  | OptOnTLSStart "'x plain_callback option"
  | OptOnTLSDone "('x trace_suite \<Rightarrow> tls_state \<Rightarrow> go_error option \<Rightarrow> 'x option) option"
  | OptOnWroteRequest "'x plain_callback option"
  | OptOnFirstByteReceived "'x plain_callback option"
  | OptOnReq "'x plain_callback option"
  | OptOnResp "('x trace_suite \<Rightarrow> http_call_info \<Rightarrow> 'x option) option"
  | OptLogger "logger option"

fun option_of :: "('x, 'h) opt \<Rightarrow> ('x, 'h) http_option" where
  "option_of (OptClient v) = WithHTTPCallerClient v"
| "option_of (OptCallFrequency v) = WithHTTPCallerCallFrequency v"
| "option_of (OptMaxConcurrentCalls v) = WithHTTPCallerMaxConcurrentCalls v"
| "option_of (OptHeaders v) = WithHTTPCallerHeaders v"
| "option_of (OptMethod v) = WithHTTPCallerMethod v"
| "option_of (OptHost v) = WithHTTPCallerHost v"
| "option_of (OptBody v) = WithHTTPCallerBody v"
| "option_of (OptTimeout v) = WithHTTPCallerTimeout v"
| "option_of (OptIsValidResponse v) = WithHTTPCallerIsValidResponse v"
| "option_of (OptOnDNSStart f) = WithHTTPCallerOnDNSStart f"
| "option_of (OptOnDNSDone f) = WithHTTPCallerOnDNSDone f"
| "option_of (OptOnConnStart f) = WithHTTPCallerOnConnStart f"
| "option_of (OptOnConnDone f) = WithHTTPCallerOnConnDone f"
| "option_of (OptOnTLSStart f) = WithHTTPCallerOnTLSStart f"
| "option_of (OptOnTLSDone f) = WithHTTPCallerOnTLSDone f"
| "option_of (OptOnWroteRequest f) = WithHTTPCallerOnWroteRequest f"
| "option_of (OptOnFirstByteReceived f) = WithHTTPCallerOnFirstByteReceived f"
| "option_of (OptOnReq f) = WithHTTPCallerOnReq f"
| "option_of (OptOnResp f) = WithHTTPCallerOnResp f"
| "option_of (OptLogger v) = WithHTTPCallerLogger v"

fun kind :: "('x, 'h) opt \<Rightarrow> nat" where
  "kind (OptClient v) = 0"
| "kind (OptCallFrequency v) = 1"
| "kind (OptMaxConcurrentCalls v) = 2"
| "kind (OptHeaders v) = 3"
| "kind (OptMethod v) = 4"
| "kind (OptHost v) = 5"
| "kind (OptBody v) = 6"
| "kind (OptTimeout v) = 7"
| "kind (OptIsValidResponse v) = 8"
| "kind (OptOnDNSStart f) = 9"
| "kind (OptOnDNSDone f) = 10"
| "kind (OptOnConnStart f) = 11"
| "kind (OptOnConnDone f) = 12"
| "kind (OptOnTLSStart f) = 13"
| "kind (OptOnTLSDone f) = 14"
| "kind (OptOnWroteRequest f) = 15"
| "kind (OptOnFirstByteReceived f) = 16"
| "kind (OptOnReq f) = 17"
| "kind (OptOnResp f) = 18"
| "kind (OptLogger v) = 19"

lemmas With_defs =
  WithHTTPCallerClient_def WithHTTPCallerCallFrequency_def WithHTTPCallerMaxConcurrentCalls_def
  WithHTTPCallerHeaders_def WithHTTPCallerMethod_def WithHTTPCallerHost_def WithHTTPCallerBody_def
  WithHTTPCallerTimeout_def WithHTTPCallerIsValidResponse_def WithHTTPCallerOnDNSStart_def
  WithHTTPCallerOnDNSDone_def WithHTTPCallerOnConnStart_def WithHTTPCallerOnConnDone_def
  WithHTTPCallerOnTLSStart_def WithHTTPCallerOnTLSDone_def WithHTTPCallerOnWroteRequest_def
  WithHTTPCallerOnFirstByteReceived_def WithHTTPCallerOnReq_def WithHTTPCallerOnResp_def
  WithHTTPCallerLogger_def

lemma option_absorb: "kind a = kind b \<Longrightarrow> option_of b (option_of a s) = option_of b s"
  by (cases a; cases b; simp only: kind.simps zero_neq_numeral numeral_eq_iff num.simps zero_neq_one one_neq_zero
      numeral_eq_one_iff one_eq_numeral_iff neq0_conv) (simp_all add: With_defs)


lemma option_commute_less: "kind a < kind b \<Longrightarrow> option_of b (option_of a s) = option_of a (option_of b s)"
  by (cases a; cases b; (simp only: kind.simps not_less_zero numeral_less_iff Num.less_num_simps one_less_numeral_iff
      less_one not_numeral_less_one HOL.simp_thms less_irrefl numeral_eq_iff numeral_One num.simps; fail)?) (simp_all add: With_defs)

lemma option_commute: "kind a \<noteq> kind b \<Longrightarrow> option_of b (option_of a s) = option_of a (option_of b s)"
  by (cases "kind a < kind b") (simp_all add: option_commute_less [of a b] option_commute_less [of b a])

definition apply_options :: "('x, 'h) opt list \<Rightarrow> ('x, 'h) http_options \<Rightarrow> ('x, 'h) http_options" where
  "apply_options os s = fold (\<lambda>opt. opt) (map option_of os) s"

lemma apply_options_simps [simp]:
  "apply_options [] s = s" "apply_options (a # os) s = apply_options os (option_of a s)"
  "apply_options (xs @ ys) s = apply_options ys (apply_options xs s)"
  by (simp_all add: apply_options_def)

text \<open>The options every caller starts from.\<close>

definition default_opts :: "'h \<Rightarrow> ('x, 'h) opt list" where
  "default_opts fresh =
     [OptClient (Some fresh), OptCallFrequency 1000000000, OptMaxConcurrentCalls 1, OptHeaders Map.empty, OptMethod ''GET'',
      OptHost '''', OptBody [], OptTimeout 10000000000, OptIsValidResponse None, OptOnDNSStart None, OptOnDNSDone None,
      OptOnConnStart None, OptOnConnDone None, OptOnTLSStart None, OptOnTLSDone None, OptOnWroteRequest None,
      OptOnFirstByteReceived None, OptOnReq None, OptOnResp None, OptLogger None]"

text \<open>What an option asks of a caller.\<close>

fun obeys :: "('x, 'h) http_caller \<Rightarrow> ('x, 'h) opt \<Rightarrow> bool" where
  "obeys c (OptClient v) \<longleftrightarrow> client c = v"
| "obeys c (OptCallFrequency v) \<longleftrightarrow> callFrequency c = v"
| "obeys c (OptMaxConcurrentCalls v) \<longleftrightarrow> maxConcurrentCalls c = v \<and> int (workChan_cap c) = v"
| "obeys c (OptHeaders v) \<longleftrightarrow> headers c = v"
| "obeys c (OptMethod v) \<longleftrightarrow> http_method c = v"
| "obeys c (OptHost v) \<longleftrightarrow> host c = v"
| "obeys c (OptBody v) \<longleftrightarrow> body c = v"
| "obeys c (OptTimeout v) \<longleftrightarrow> http_timeout c = v"
| "obeys c (OptIsValidResponse v) \<longleftrightarrow> isValidResponse c = v"
| "obeys c (OptOnDNSStart f) \<longleftrightarrow> onDNSStart c = f"
| "obeys c (OptOnDNSDone f) \<longleftrightarrow> onDNSDone c = f"
| "obeys c (OptOnConnStart f) \<longleftrightarrow> onConnStart c = f"
| "obeys c (OptOnConnDone f) \<longleftrightarrow> onConnDone c = f"
| "obeys c (OptOnTLSStart f) \<longleftrightarrow> onTLSStart c = f"
| "obeys c (OptOnTLSDone f) \<longleftrightarrow> onTLSDone c = f"
| "obeys c (OptOnWroteRequest f) \<longleftrightarrow> onWroteHeaders c = f"
| "obeys c (OptOnFirstByteReceived f) \<longleftrightarrow> onFirstByteReceived c = f"
| "obeys c (OptOnReq f) \<longleftrightarrow> onReq c = f"
| "obeys c (OptOnResp f) \<longleftrightarrow> onResp c = f"
| "obeys c (OptLogger v) \<longleftrightarrow> h_logger c = v"

text \<open>The last option of its kind in a list.\<close>

definition last_of_kind :: "('x, 'h) opt \<Rightarrow> ('x, 'h) opt list \<Rightarrow> bool" where
  "last_of_kind a os \<longleftrightarrow> (\<exists>xs ys. os = xs @ a # ys \<and> kind a \<notin> kind ` set ys)"

lemma last_of_kind_exists: "n \<in> kind ` set os \<Longrightarrow> \<exists>a. kind a = n \<and> last_of_kind a os"
proof (induction os)
  case (Cons b os)
  show ?case
  proof (cases "n \<in> kind ` set os")
    case True
    with Cons.IH obtain a xs ys where "kind a = n" "os = xs @ a # ys" "kind a \<notin> kind ` set ys"
      by (auto simp: last_of_kind_def)
    then show ?thesis unfolding last_of_kind_def by (metis append_Cons)
  next
    case False
    moreover from this have "last_of_kind b (b # os)" if "kind b = n"
      using that unfolding last_of_kind_def by (intro exI [of _ "[]"] exI [of _ os]) simp
    ultimately show ?thesis using Cons.prems by auto
  qed
qed simp

text \<open>An option that has been given and not overridden is one that giving it again does not change.\<close>

lemma given_stays: "option_of a s = s \<Longrightarrow> kind a \<notin> kind ` set os \<Longrightarrow> option_of a (apply_options os s) = apply_options os s"
proof (induction os arbitrary: s)
  case (Cons b os)
  then have "kind b \<noteq> kind a" by auto
  then have "option_of a (option_of b s) = option_of b s" using option_commute [of b a s] Cons.prems(1) by simp
  with Cons.IH [of "option_of b s"] Cons.prems(2) show ?case by simp
qed simp

lemma last_of_kind_given: "last_of_kind a os \<Longrightarrow> option_of a (apply_options os s) = apply_options os s"
  using given_stays [of a "option_of a t" for t] option_absorb [of a a] by (auto simp: last_of_kind_def)

text \<open>What \<^verbatim>\<open>NewHTTPCaller\<close> builds from the options it ends with.\<close>

lemma default_opts: "apply_options (default_opts fresh @ os) s = apply_options os (default_options fresh)"
  by (cases s) (simp add: default_opts_def default_options_def With_defs)

lemma NewHTTPCaller_obeys:
  assumes "NewHTTPCaller fresh u (map option_of os) = Inr c"
    and "option_of a (apply_options os (default_options fresh)) = apply_options os (default_options fresh)"
  shows "obeys c a"
proof -
  obtain opts where o: "opts = apply_options os (default_options fresh)" by simp
  with assms have "\<not> o_maxConcurrentCalls opts < 0" "option_of a opts = opts"
    by (simp_all add: NewHTTPCaller_def Let_def apply_options_def split: if_splits)
  moreover from assms(1) o have "c = \<lparr>client = o_client opts, callFrequency = o_callFrequency opts,
      maxConcurrentCalls = o_maxConcurrentCalls opts, url = u, host = o_host opts, headers = o_headers opts,
      http_method = o_method opts, body = o_body opts, http_timeout = o_timeout opts, isValidResponse = o_isValidResponse opts,
      workChan_cap = nat (o_maxConcurrentCalls opts), doneChan = OpenChan, onDNSStart = o_onDNSStart opts,
      onDNSDone = o_onDNSDone opts, onConnStart = o_onConnStart opts, onConnDone = o_onConnDone opts,
      onTLSStart = o_onTLSStart opts, onTLSDone = o_onTLSDone opts, onWroteHeaders = o_onWroteHeaders opts,
      onFirstByteReceived = o_onFirstByteReceived opts, onReq = o_onReq opts, onResp = o_onResp opts,
      h_logger = o_logger opts\<rparr>"
    by (simp add: NewHTTPCaller_def Let_def apply_options_def split: if_splits)
  ultimately show ?thesis by (cases opts; cases a; simp add: With_defs)
qed

lemma NewHTTPCaller_Inr:
  assumes "NewHTTPCaller fresh u os = Inr c"
  shows "int (workChan_cap c) = maxConcurrentCalls c" "doneChan c = OpenChan" "url c = u"
  using assms by (auto simp: NewHTTPCaller_def Let_def split: if_splits)

text \<open>
  C39. What the options mean: of the defaults followed by the client's options the last of each
  kind is in force, in every field of the caller, whatever else is given in whichever order; the
  caller has the client's URL and an open stop channel; and building one panics exactly if
  the last number of concurrent calls is negative.
\<close>

theorem options_in_force:
  "(\<forall>c. NewHTTPCaller fresh u (map option_of os) = Inr c \<longrightarrow>
      (\<forall>a. last_of_kind a (default_opts fresh @ os) \<longrightarrow> obeys c a) \<and> url c = u \<and> doneChan c = OpenChan) \<and>
   (NewHTTPCaller fresh u (map option_of os) = Inl NegativeChanSize \<longleftrightarrow>
      (\<exists>n < 0. last_of_kind (OptMaxConcurrentCalls n) (default_opts fresh @ os)))"
proof -
  let ?o = "apply_options os (default_options fresh)"
  have given: "option_of a ?o = ?o" if "last_of_kind a (default_opts fresh @ os)" for a
    using last_of_kind_given [OF that] by (simp only: default_opts)
  have neg: "o_maxConcurrentCalls ?o = n" if "last_of_kind (OptMaxConcurrentCalls n) (default_opts fresh @ os)" for n
    using given [OF that] by (cases ?o) (simp add: WithHTTPCallerMaxConcurrentCalls_def)
  have "2 \<in> kind ` set (default_opts fresh @ os)" by (simp add: default_opts_def)
  from last_of_kind_exists [OF this] obtain a where a: "kind a = 2" "last_of_kind a (default_opts fresh @ os)" by blast
  then obtain n where "a = OptMaxConcurrentCalls n" by (cases a) simp_all
  with a(2) neg have "(\<exists>n < 0. last_of_kind (OptMaxConcurrentCalls n) (default_opts fresh @ os)) \<longleftrightarrow> o_maxConcurrentCalls ?o < 0"
    by blast
  moreover have "NewHTTPCaller fresh u (map option_of os) = Inl NegativeChanSize \<longleftrightarrow> o_maxConcurrentCalls ?o < 0"
    by (simp add: NewHTTPCaller_def Let_def apply_options_def)
  ultimately have "NewHTTPCaller fresh u (map option_of os) = Inl NegativeChanSize \<longleftrightarrow>
      (\<exists>n < 0. last_of_kind (OptMaxConcurrentCalls n) (default_opts fresh @ os))" by simp
  moreover have "obeys c a" if "NewHTTPCaller fresh u (map option_of os) = Inr c" "last_of_kind a (default_opts fresh @ os)" for c a
    by (rule NewHTTPCaller_obeys [OF that(1) given [OF that(2)]])
  ultimately show ?thesis by (simp add: NewHTTPCaller_Inr(2,3))
qed

section \<open>Witnesses\<close>

theorem options_in_force_witness:
  "\<exists>c. NewHTTPCaller (0 :: nat) ''u'' (map option_of [OptTimeout 5, OptMaxConcurrentCalls 3, OptTimeout 7 :: (nat, nat) opt]) = Inr c \<and>
     http_timeout c = 7 \<and> http_method c = ''GET'' \<and>
     NewHTTPCaller (0 :: nat) ''u'' (map option_of [OptMaxConcurrentCalls (- 1) :: (nat, nat) opt]) = Inl NegativeChanSize"
proof -
  let ?os = "[OptTimeout 5, OptMaxConcurrentCalls 3, OptTimeout 7 :: (nat, nat) opt]"
  obtain c where c: "NewHTTPCaller (0 :: nat) ''u'' (map option_of ?os) = Inr c"
    by (simp add: NewHTTPCaller_def default_options_def With_defs)
  have "last_of_kind (OptTimeout 7) (default_opts 0 @ ?os)"
    unfolding last_of_kind_def by (intro exI [of _ "default_opts 0 @ [OptTimeout 5, OptMaxConcurrentCalls 3]"] exI [of _ "[]"]) simp
  moreover have "last_of_kind (OptMethod ''GET'') (default_opts 0 @ ?os)"
    unfolding last_of_kind_def
    by (intro exI [of _ "take 4 (default_opts 0)"] exI [of _ "drop 5 (default_opts 0) @ ?os"]) (simp add: default_opts_def)
  moreover have "last_of_kind (OptMaxConcurrentCalls (- 1)) (default_opts (0 :: nat) @ [OptMaxConcurrentCalls (- 1) :: (nat, nat) opt])"
    unfolding last_of_kind_def by (intro exI [of _ "default_opts 0"] exI [of _ "[]"]) simp
  then have neg: "NewHTTPCaller (0 :: nat) ''u'' (map option_of [OptMaxConcurrentCalls (- 1) :: (nat, nat) opt]) = Inl NegativeChanSize"
    by (subst options_in_force [THEN conjunct2]) (intro exI [of _ "- 1"] conjI, simp)
  ultimately have "obeys c (OptTimeout 7)" "obeys c (OptMethod ''GET'')"
    using options_in_force [THEN conjunct1, rule_format, OF c, THEN conjunct1, rule_format] by blast+
  with c neg show ?thesis by auto
qed

end
