(* ===== verification/Http_Call.thy ===== *)
theory Http_Call
  imports Http_Options
begin

text \<open>
  One call of the HTTP prober: the getters of \<^verbatim>\<open>TraceSuite\<close>, the hooks of \<^verbatim>\<open>getClientTrace\<close> and
  \<^verbatim>\<open>makeCall\<close> of \<^verbatim>\<open>http.go\<close>. Package \<^verbatim>\<open>net/http\<close> is the parameter \<open>http_net\<close>: which
  hooks it calls, at which times and in which order, and how the request ends. The mutex of the suite
  makes every hook and every callback one step, so that a sequence of hooks is all there is to order.
\<close>

section \<open>Getters\<close>

definition GetGeneralStart :: "'x trace_suite \<Rightarrow> time" where
  "GetGeneralStart s = generalStart s"

definition GetGeneralEnd :: "'x trace_suite \<Rightarrow> time" where
  "GetGeneralEnd s = generalEnd s"

definition GetDNSStart :: "'x trace_suite \<Rightarrow> time" where
  "GetDNSStart s = dnsStart s"

definition GetDNSEnd :: "'x trace_suite \<Rightarrow> time" where
  "GetDNSEnd s = dnsEnd s"

definition GetConnStart :: "'x trace_suite \<Rightarrow> time" where
  "GetConnStart s = connStart s"

definition GetConnEnd :: "'x trace_suite \<Rightarrow> time" where
  "GetConnEnd s = connEnd s"

definition GetTLSStart :: "'x trace_suite \<Rightarrow> time" where
  "GetTLSStart s = tlsStart s"

definition GetTLSEnd :: "'x trace_suite \<Rightarrow> time" where
  "GetTLSEnd s = tlsEnd s"

definition GetWroteHeaders :: "'x trace_suite \<Rightarrow> time" where
  "GetWroteHeaders s = wroteHeaders s"

definition GetFirstByteReceived :: "'x trace_suite \<Rightarrow> time" where
  "GetFirstByteReceived s = firstByteReceived s"

lemmas getter_defs = GetGeneralStart_def GetGeneralEnd_def GetDNSStart_def GetDNSEnd_def GetConnStart_def
  GetConnEnd_def GetTLSStart_def GetTLSEnd_def GetWroteHeaders_def GetFirstByteReceived_def

section \<open>Hooks\<close>

text \<open>The callbacks a client sees, each with the suite as it is when the callback is called.\<close>

datatype 'x http_event =
    CalledDNSStart "'x trace_suite" dns_start_info
  | CalledDNSDone "'x trace_suite" dns_done_info
  | CalledConnStart "'x trace_suite" string string
  | CalledConnDone "'x trace_suite" string string "go_error option"
  | CalledTLSStart "'x trace_suite"
  | CalledTLSDone "'x trace_suite" tls_state "go_error option"
  | CalledWroteHeaders "'x trace_suite"
  | CalledFirstByte "'x trace_suite"
  | CalledReq "'x trace_suite"
  | CalledResp "'x trace_suite" http_call_info

type_synonym 'x suite_step = "'x trace_suite \<Rightarrow> 'x trace_suite \<times> 'x http_event list"

text \<open>\<^verbatim>\<open>if c.onX != nil { c.onX(suite, ...) }\<close>: \<open>call\<close> applies the callback, \<open>ev\<close> is the event.\<close>

definition call_if :: "'f option \<Rightarrow> ('f \<Rightarrow> 'x trace_suite \<Rightarrow> 'x option) \<Rightarrow> ('x trace_suite \<Rightarrow> 'x http_event) \<Rightarrow> 'x suite_step" where
  "call_if cb call ev s = (case cb of None \<Rightarrow> (s, []) | Some f \<Rightarrow> (s\<lparr>Extra := call f s\<rparr>, [ev s]))"

text \<open>\<^verbatim>\<open>httptrace.ClientTrace\<close>; the first argument of a hook is what \<^verbatim>\<open>time.Now()\<close> answers in it.\<close>

record 'x client_trace =
  DNSStart :: "time \<Rightarrow> dns_start_info \<Rightarrow> 'x suite_step"
  DNSDone :: "time \<Rightarrow> dns_done_info \<Rightarrow> 'x suite_step"
  ConnectStart :: "time \<Rightarrow> string \<Rightarrow> string \<Rightarrow> 'x suite_step"
  ConnectDone :: "time \<Rightarrow> string \<Rightarrow> string \<Rightarrow> go_error option \<Rightarrow> 'x suite_step"
  TLSHandshakeStart :: "time \<Rightarrow> 'x suite_step"
  TLSHandshakeDone :: "time \<Rightarrow> tls_state \<Rightarrow> go_error option \<Rightarrow> 'x suite_step"
  WroteHeaders :: "time \<Rightarrow> 'x suite_step"
  GotFirstResponseByte :: "time \<Rightarrow> 'x suite_step"

definition getClientTrace :: "('x, 'h) http_caller \<Rightarrow> 'x client_trace" where
  "getClientTrace c = \<lparr>
     DNSStart = (\<lambda>now info suite.
       let suite = suite\<lparr>dnsStart := now\<rparr>
       in call_if (onDNSStart c) (\<lambda>f s. f s info) (\<lambda>s. CalledDNSStart s info) suite),
     DNSDone = (\<lambda>now info suite.
       let suite = suite\<lparr>dnsEnd := now\<rparr>
       in call_if (onDNSDone c) (\<lambda>f s. f s info) (\<lambda>s. CalledDNSDone s info) suite),
     ConnectStart = (\<lambda>now network addr suite.
       let suite = suite\<lparr>connStart := now\<rparr>
       in call_if (onConnStart c) (\<lambda>f s. f s network addr) (\<lambda>s. CalledConnStart s network addr) suite),
     ConnectDone = (\<lambda>now network addr err suite.
       let suite = suite\<lparr>connEnd := now\<rparr>
       in call_if (onConnDone c) (\<lambda>f s. f s network addr err) (\<lambda>s. CalledConnDone s network addr err) suite),
     TLSHandshakeStart = (\<lambda>now suite.
       let suite = suite\<lparr>tlsStart := now\<rparr>
       in call_if (onTLSStart c) (\<lambda>f s. f s) CalledTLSStart suite),
     TLSHandshakeDone = (\<lambda>now state err suite.
       let suite = suite\<lparr>tlsEnd := now\<rparr>
       in call_if (onTLSDone c) (\<lambda>f s. f s state err) (\<lambda>s. CalledTLSDone s state err) suite),
     WroteHeaders = (\<lambda>now suite.
       let suite = suite\<lparr>wroteHeaders := now\<rparr>
       in call_if (onWroteHeaders c) (\<lambda>f s. f s) CalledWroteHeaders suite),
     GotFirstResponseByte = (\<lambda>now suite.
       let suite = suite\<lparr>firstByteReceived := now\<rparr>
       in call_if (onFirstByteReceived c) (\<lambda>f s. f s) CalledFirstByte suite)\<rparr>"

text \<open>What package \<^verbatim>\<open>net/http\<close> does with it: it calls hooks, in some order, any number of times.\<close>

datatype hook =
    HookDNSStart dns_start_info
  | HookDNSDone dns_done_info
  | HookConnectStart string string
  | HookConnectDone string string "go_error option"
  | HookTLSStart
  | HookTLSDone tls_state "go_error option"
  | HookWroteHeaders
  | HookFirstByte

fun call_hook :: "'x client_trace \<Rightarrow> time \<times> hook \<Rightarrow> 'x suite_step" where
  "call_hook t (now, HookDNSStart info) = DNSStart t now info"
| "call_hook t (now, HookDNSDone info) = DNSDone t now info"
| "call_hook t (now, HookConnectStart n a) = ConnectStart t now n a"
| "call_hook t (now, HookConnectDone n a err) = ConnectDone t now n a err"
| "call_hook t (now, HookTLSStart) = TLSHandshakeStart t now"
| "call_hook t (now, HookTLSDone st err) = TLSHandshakeDone t now st err"
| "call_hook t (now, HookWroteHeaders) = WroteHeaders t now"
| "call_hook t (now, HookFirstByte) = GotFirstResponseByte t now"

primrec call_hooks :: "'x client_trace \<Rightarrow> (time \<times> hook) list \<Rightarrow> 'x suite_step" where
  "call_hooks t [] s = (s, [])"
| "call_hooks t (h # hs) s =
     (let (s, evs) = call_hook t h s; (s, evs') = call_hooks t hs s in (s, evs @ evs'))"

section \<open>makeCall\<close>

text \<open>
  \<open>NewRequest\<close> is \<^verbatim>\<open>http.NewRequestWithContext\<close> on the method, the URL and the body; \<open>Do\<close> is
  the client's \<^verbatim>\<open>Do\<close> under a context with the given timeout: the hooks it calls, and the error or
  the response; \<open>ReadAll\<close> reads a response's body, with the hooks that are still called meanwhile.
\<close>

record request =
  req_Method :: string
  req_URL :: string
  req_Body :: "byte list"
  req_Header :: header
  req_Host :: string

record 'h http_net =
  NewRequest :: "string \<Rightarrow> string \<Rightarrow> byte list \<Rightarrow> go_error + request"
  Do :: "'h \<Rightarrow> duration \<Rightarrow> request \<Rightarrow> (time \<times> hook) list \<times> (go_error + response)"
  ReadAll :: "response \<Rightarrow> (time \<times> hook) list \<times> (go_error + byte list)"

text \<open>What became of a response's body: there was none, it was closed, or it was left open.\<close>

datatype body_state = NoBody | BodyClosed nat | BodyOpen nat

record 'x call_result =
  cr_err :: "go_error option"
  cr_suite :: "'x trace_suite"
  cr_events :: "'x http_event list"
  cr_body :: body_state

definition new_suite :: "time \<Rightarrow> 'x trace_suite" where
  "new_suite now = \<lparr>generalStart = now, generalEnd = zero_time, dnsStart = zero_time, dnsEnd = zero_time,
     connStart = zero_time, connEnd = zero_time, tlsStart = zero_time, tlsEnd = zero_time,
     wroteHeaders = zero_time, firstByteReceived = zero_time, Extra = None\<rparr>"

text \<open>\<open>t0\<close> and \<open>t1\<close> are the clock at the start and before \<^verbatim>\<open>onResp\<close>; a nil client panics.\<close>

definition makeCall ::
  "'h http_net \<Rightarrow> time \<Rightarrow> time \<Rightarrow> ('x, 'h) http_caller \<Rightarrow> 'x call_result go" where
  "makeCall net t0 t1 c =
     (let suite = new_suite t0;
          trace = getClientTrace c
      in case NewRequest net (http_method c) (url c) (body c) of
           Inl err \<Rightarrow> Inr \<lparr>cr_err = Some err, cr_suite = suite, cr_events = [], cr_body = NoBody\<rparr>
         | Inr req \<Rightarrow>
            let req = req\<lparr>req_Header := headers c\<rparr>;
                req = (if host c \<noteq> '''' then req\<lparr>req_Host := host c\<rparr> else req);
                (suite, evs0) = call_if (onReq c) (\<lambda>f s. f s) CalledReq suite
            in case client c of
                 None \<Rightarrow> Inl NilDereference
               | Some cl \<Rightarrow>
                  (case Do net cl (http_timeout c) req of
                     (hs, Inl err) \<Rightarrow>
                       (let (suite, evs1) = call_hooks trace hs suite
                        in Inr \<lparr>cr_err = Some err, cr_suite = suite, cr_events = evs0 @ evs1, cr_body = NoBody\<rparr>)
                   | (hs, Inr resp) \<Rightarrow>
                       (let (suite, evs1) = call_hooks trace hs suite
                        in case ReadAll net resp of
                             (hs, Inl err) \<Rightarrow>
                               (let (suite, evs2) = call_hooks trace hs suite
                                in Inr \<lparr>cr_err = Some err, cr_suite = suite, cr_events = evs0 @ evs1 @ evs2,
                                        cr_body = BodyOpen (resp_Body resp)\<rparr>)
                           | (hs, Inr b) \<Rightarrow>
                               (let (suite, evs2) = call_hooks trace hs suite;
                                    valid = (case isValidResponse c of None \<Rightarrow> True | Some f \<Rightarrow> f resp b);
                                    (suite, evs3) =
                                      (if onResp c \<noteq> None then
                                         let suite = suite\<lparr>generalEnd := t1\<rparr>;
                                             info = \<lparr>StatusCode = resp_StatusCode resp, IsValidResponse = valid\<rparr>
                                         in call_if (onResp c) (\<lambda>f s. f s info) (\<lambda>s. CalledResp s info) suite
                                       else (suite, []))
                                in Inr \<lparr>cr_err = None, cr_suite = suite, cr_events = evs0 @ evs1 @ evs2 @ evs3,
                                        cr_body = BodyClosed (resp_Body resp)\<rparr>))))"

section \<open>What hooks do to the suite\<close>

text \<open>The timer a hook sets, by number; the callback it may call; and the timer an event is about.\<close>

fun hook_timer :: "hook \<Rightarrow> nat" where
  "hook_timer (HookDNSStart info) = 0"
| "hook_timer (HookDNSDone info) = 1"
| "hook_timer (HookConnectStart n a) = 2"
| "hook_timer (HookConnectDone n a err) = 3"
| "hook_timer HookTLSStart = 4"
| "hook_timer (HookTLSDone st err) = 5"
| "hook_timer HookWroteHeaders = 6"
| "hook_timer HookFirstByte = 7"

fun listens :: "('x, 'h) http_caller \<Rightarrow> hook \<Rightarrow> bool" where
  "listens c (HookDNSStart info) = (onDNSStart c \<noteq> None)"
| "listens c (HookDNSDone info) = (onDNSDone c \<noteq> None)"
| "listens c (HookConnectStart n a) = (onConnStart c \<noteq> None)"
| "listens c (HookConnectDone n a err) = (onConnDone c \<noteq> None)"
| "listens c HookTLSStart = (onTLSStart c \<noteq> None)"
| "listens c (HookTLSDone st err) = (onTLSDone c \<noteq> None)"
| "listens c HookWroteHeaders = (onWroteHeaders c \<noteq> None)"
| "listens c HookFirstByte = (onFirstByteReceived c \<noteq> None)"

text \<open>Which callback an event is, as the hook it comes from, and what its own timer says in the suite it gets.\<close>

fun event_hook :: "'x http_event \<Rightarrow> (time \<times> hook) option" where
  "event_hook (CalledDNSStart s info) = Some (GetDNSStart s, HookDNSStart info)"
| "event_hook (CalledDNSDone s info) = Some (GetDNSEnd s, HookDNSDone info)"
| "event_hook (CalledConnStart s n a) = Some (GetConnStart s, HookConnectStart n a)"
| "event_hook (CalledConnDone s n a err) = Some (GetConnEnd s, HookConnectDone n a err)"
| "event_hook (CalledTLSStart s) = Some (GetTLSStart s, HookTLSStart)"
| "event_hook (CalledTLSDone s st err) = Some (GetTLSEnd s, HookTLSDone st err)"
| "event_hook (CalledWroteHeaders s) = Some (GetWroteHeaders s, HookWroteHeaders)"
| "event_hook (CalledFirstByte s) = Some (GetFirstByteReceived s, HookFirstByte)"
| "event_hook (CalledReq s) = None"
| "event_hook (CalledResp s info) = None"

text \<open>The time of the last hook that sets timer \<open>k\<close>, or what the timer was.\<close>

definition latest :: "nat \<Rightarrow> (time \<times> hook) list \<Rightarrow> time \<Rightarrow> time" where
  "latest k hs d = fold (\<lambda>(t, h) d. if hook_timer h = k then t else d) hs d"

lemma latest_simps [simp]:
  "latest k [] d = d"
  "latest k ((t, h) # hs) d = latest k hs (if hook_timer h = k then t else d)"
  by (simp_all add: latest_def)

definition timers :: "'x trace_suite \<Rightarrow> time list" where
  "timers s = [GetDNSStart s, GetDNSEnd s, GetConnStart s, GetConnEnd s, GetTLSStart s, GetTLSEnd s,
     GetWroteHeaders s, GetFirstByteReceived s]"

lemma call_if_timers:
  "timers (fst (call_if cb call ev s)) = timers s"
  "generalStart (fst (call_if cb call ev s)) = generalStart s"
  "generalEnd (fst (call_if cb call ev s)) = generalEnd s"
  by (simp_all add: call_if_def timers_def getter_defs split: option.split)

text \<open>One hook: its timer is set, and its callback, if there is one, sees it set.\<close>

lemma call_hook_step:
  fixes c :: "('x, 'h) http_caller"
  assumes "call_hook (getClientTrace c) (t, h) s = (s', evs)"
  shows "timers s' = (timers s)[hook_timer h := t]"
    "generalStart s' = generalStart s" "generalEnd s' = generalEnd s"
    "map event_hook evs = (if listens c h then [Some (t, h)] else [])"
proof -
  have "timers s' = (timers s)[hook_timer h := t] \<and> generalStart s' = generalStart s \<and> generalEnd s' = generalEnd s \<and>
    map event_hook evs = (if listens c h then [Some (t, h)] else [])"
    using assms by (cases h) (auto simp: getClientTrace_def call_if_def timers_def getter_defs Let_def split: option.splits)
  then show "timers s' = (timers s)[hook_timer h := t]"
    "generalStart s' = generalStart s" "generalEnd s' = generalEnd s"
    "map event_hook evs = (if listens c h then [Some (t, h)] else [])" by simp_all
qed

lemma length_timers [simp]: "length (timers s) = 8"
  by (simp add: timers_def)

lemma call_hooks_run:
  fixes c :: "('x, 'h) http_caller"
  assumes "call_hooks (getClientTrace c) hs s = (s', evs)"
  shows "(\<forall>k < 8. timers s' ! k = latest k hs (timers s ! k)) \<and>
    generalStart s' = generalStart s \<and> generalEnd s' = generalEnd s \<and>
    map event_hook evs = map Some (filter (\<lambda>(t, h). listens c h) hs)"
  using assms
proof (induction hs arbitrary: s s' evs)
  case (Cons x hs)
  obtain t h where x: "x = (t, h)" by (cases x)
  obtain s1 e1 where 1: "call_hook (getClientTrace c) (t, h) s = (s1, e1)" by (cases "call_hook (getClientTrace c) (t, h) s")
  obtain s2 e2 where 2: "call_hooks (getClientTrace c) hs s1 = (s2, e2)" by (cases "call_hooks (getClientTrace c) hs s1")
  from Cons.prems x 1 2 have "s' = s2" "evs = e1 @ e2" by auto
  with Cons.IH [OF 2] call_hook_step [OF 1] x show ?case by (simp add: nth_list_update)
qed simp

text \<open>
  C29. The timers of a \<^verbatim>\<open>TraceSuite\<close>: after any sequence of hooks each timer is the time of the last
  hook of its kind (redirects overwrite), the others and the general start and end are as before;
  and the callbacks that are set are called once per hook, in the order of the hooks and with the
  hooks' arguments, each finding its own timer already set to the time of its hook.
\<close>

theorem suite_follows_hooks:
  assumes "call_hooks (getClientTrace c) hs s = (s', evs)"
  shows "timers s' = map (\<lambda>k. latest k hs (timers s ! k)) [0..<8] \<and>
    GetGeneralStart s' = GetGeneralStart s \<and> GetGeneralEnd s' = GetGeneralEnd s \<and>
    map event_hook evs = map Some (filter (\<lambda>(t, h). listens c h) hs)"
proof -
  note r = call_hooks_run [OF assms]
  have "timers s' = map (\<lambda>k. latest k hs (timers s ! k)) [0..<8]"
    using r by (intro nth_equalityI) simp_all
  with r show ?thesis by (simp add: getter_defs)
qed

section \<open>What a call comes to\<close>

text \<open>The exchange without the suite: where a call ends, and with what.\<close>

datatype exchange_result =
    NoRequest go_error
  | DoFailed go_error
  | ReadFailed go_error response
  | Answered response "byte list"

definition outgoing :: "('x, 'h) http_caller \<Rightarrow> request \<Rightarrow> request" where
  "outgoing c req = req\<lparr>req_Header := headers c, req_Host := (if host c = '''' then req_Host req else host c)\<rparr>"

definition exchange :: "'h http_net \<Rightarrow> ('x, 'h) http_caller \<Rightarrow> 'h \<Rightarrow> exchange_result" where
  "exchange net c cl = (case NewRequest net (http_method c) (url c) (body c) of
       Inl e \<Rightarrow> NoRequest e
     | Inr req \<Rightarrow> (case snd (Do net cl (http_timeout c) (outgoing c req)) of
         Inl e \<Rightarrow> DoFailed e
       | Inr resp \<Rightarrow> (case snd (ReadAll net resp) of
           Inl e \<Rightarrow> ReadFailed e resp
         | Inr b \<Rightarrow> Answered resp b)))"

fun is_resp :: "'x http_event \<Rightarrow> bool" where
  "is_resp (CalledResp s info) = True"
| "is_resp _ = False"

fun is_req :: "'x http_event \<Rightarrow> bool" where
  "is_req (CalledReq s) = True"
| "is_req _ = False"

lemma no_general_events:
  assumes "call_hooks (getClientTrace c) hs s = (s', evs)" "e \<in> set evs"
  shows "\<not> is_resp e" "\<not> is_req e"
proof -
  have "event_hook e \<in> set (map Some (filter (\<lambda>(t, h). listens c h) hs))"
    using call_hooks_run [OF assms(1)] assms(2) by (metis image_eqI set_map)
  then show "\<not> is_resp e" "\<not> is_req e" by (cases e; simp)+
qed

text \<open>The part of \<^verbatim>\<open>makeCall\<close> behind \<^verbatim>\<open>onReq\<close>, and the events of each part.\<close>

lemma call_if_events:
  "snd (call_if cb call ev s) = (if cb = None then [] else [ev s])"
  by (simp add: call_if_def split: option.split)

definition req_events :: "('x, 'h) http_caller \<Rightarrow> time \<Rightarrow> 'x http_event list" where
  "req_events c t0 = (if onReq c = None then [] else [CalledReq (new_suite t0)])"

lemma outgoing_eq:
  "(let req = req\<lparr>req_Header := headers c\<rparr> in if host c \<noteq> '''' then req\<lparr>req_Host := host c\<rparr> else req) = outgoing c req"
  by (simp add: outgoing_def)

text \<open>What a result has to be for an exchange; \<open>evs\<close> are the events of the hooks.\<close>

definition result_for ::
  "('x, 'h) http_caller \<Rightarrow> time \<Rightarrow> time \<Rightarrow> exchange_result \<Rightarrow> 'x call_result \<Rightarrow> 'x http_event list \<Rightarrow> bool" where
  "result_for c t0 t1 x r evs \<longleftrightarrow> list_all (\<lambda>e. \<not> is_resp e \<and> \<not> is_req e) evs \<and>
    (case x of
       NoRequest e \<Rightarrow> cr_err r = Some e \<and> cr_body r = NoBody \<and> cr_events r = []
     | DoFailed e \<Rightarrow> cr_err r = Some e \<and> cr_body r = NoBody \<and> cr_events r = req_events c t0 @ evs
     | ReadFailed e resp \<Rightarrow> cr_err r = Some e \<and> cr_body r = BodyOpen (resp_Body resp) \<and>
         cr_events r = req_events c t0 @ evs
     | Answered resp b \<Rightarrow> cr_err r = None \<and> cr_body r = BodyClosed (resp_Body resp) \<and>
         (\<exists>s. cr_events r = req_events c t0 @ evs @
            (if onResp c = None then [] else
              [CalledResp s \<lparr>StatusCode = resp_StatusCode resp,
                 IsValidResponse = (case isValidResponse c of None \<Rightarrow> True | Some f \<Rightarrow> f resp b)\<rparr>]) \<and>
            GetGeneralStart s = t0 \<and> (onResp c \<noteq> None \<longrightarrow> GetGeneralEnd s = t1)))"

text \<open>The part behind a response: its body is read, judged and handed to \<^verbatim>\<open>onResp\<close>.\<close>

definition after_response ::
  "'h http_net \<Rightarrow> time \<Rightarrow> ('x, 'h) http_caller \<Rightarrow> response \<Rightarrow> 'x http_event list \<Rightarrow> 'x trace_suite \<Rightarrow> 'x call_result" where
  "after_response net t1 c resp evs s = (case ReadAll net resp of
       (hs, Inl err) \<Rightarrow>
         (let (s, evs2) = call_hooks (getClientTrace c) hs s
          in \<lparr>cr_err = Some err, cr_suite = s, cr_events = evs @ evs2, cr_body = BodyOpen (resp_Body resp)\<rparr>)
     | (hs, Inr b) \<Rightarrow>
         (let (s, evs2) = call_hooks (getClientTrace c) hs s;
              info = \<lparr>StatusCode = resp_StatusCode resp,
                IsValidResponse = (case isValidResponse c of None \<Rightarrow> True | Some f \<Rightarrow> f resp b)\<rparr>;
              (s, evs3) = (if onResp c \<noteq> None
                then call_if (onResp c) (\<lambda>f s. f s info) (\<lambda>s. CalledResp s info) (s\<lparr>generalEnd := t1\<rparr>) else (s, []))
          in \<lparr>cr_err = None, cr_suite = s, cr_events = evs @ evs2 @ evs3, cr_body = BodyClosed (resp_Body resp)\<rparr>))"

lemma after_response_result:
  assumes "generalStart s = t0" and e: "list_all (\<lambda>e. \<not> is_resp e \<and> \<not> is_req e) e1"
  shows "\<exists>evs. result_for c t0 t1 (case snd (ReadAll net resp) of Inl e \<Rightarrow> ReadFailed e resp | Inr b \<Rightarrow> Answered resp b)
    (after_response net t1 c resp (req_events c t0 @ e1) s) evs"
proof -
  obtain hs y where rd: "ReadAll net resp = (hs, y)" by (cases "ReadAll net resp")
  obtain s2 e2 where 2: "call_hooks (getClientTrace c) hs s = (s2, e2)" by (cases "call_hooks (getClientTrace c) hs s")
  have q: "list_all (\<lambda>e. \<not> is_resp e \<and> \<not> is_req e) (e1 @ e2)"
    using no_general_events [OF 2] e by (auto simp: list_all_iff)
  have g: "generalStart s2 = t0" using call_hooks_run [OF 2] assms(1) by simp
  show ?thesis
  proof (cases y)
    case (Inl err)
    with q show ?thesis by (intro exI [of _ "e1 @ e2"]) (simp add: result_for_def after_response_def rd 2)
  next
    case (Inr b)
    with q g show ?thesis
      by (intro exI [of _ "e1 @ e2"])
        (simp add: result_for_def after_response_def rd 2 case_prod_beta call_if_events getter_defs Let_def
          exI [of _ "s2\<lparr>generalEnd := t1\<rparr>"])
  qed
qed

lemma makeCall_result:
  fixes c :: "('x, 'h) http_caller"
  assumes cl: "client c = Some cl"
  shows "\<exists>r evs. makeCall net t0 t1 c = Inr r \<and> result_for c t0 t1 (exchange net c cl) r evs"
proof (cases "NewRequest net (http_method c) (url c) (body c)")
  case (Inl e)
  then show ?thesis by (simp add: makeCall_def exchange_def result_for_def exI [of _ "[]"])
next
  case (Inr req)
  obtain s0 e0 where 0: "call_if (onReq c) (\<lambda>f s. f s) CalledReq (new_suite t0) = (s0, e0)"
    by (cases "call_if (onReq c) (\<lambda>f s. f s) CalledReq (new_suite t0)")
  have e0: "e0 = req_events c t0" "generalStart s0 = t0"
    using 0 call_if_events [of "onReq c" "\<lambda>f s. f s" CalledReq "new_suite t0"]
      call_if_timers(2) [of "onReq c" "\<lambda>f s. f s" CalledReq "new_suite t0"]
    by (auto simp: req_events_def new_suite_def)
  obtain hs x where d: "Do net cl (http_timeout c) (outgoing c req) = (hs, x)"
    by (cases "Do net cl (http_timeout c) (outgoing c req)")
  obtain s1 e1 where 1: "call_hooks (getClientTrace c) hs s0 = (s1, e1)" by (cases "call_hooks (getClientTrace c) hs s0")
  have q1: "list_all (\<lambda>e. \<not> is_resp e \<and> \<not> is_req e) e1" using no_general_events [OF 1] by (auto simp: list_all_iff)
  have g1: "generalStart s1 = t0" using call_hooks_run [OF 1] e0(2) by simp
  note u = makeCall_def Let_def outgoing_eq [unfolded Let_def]
  have m: "makeCall net t0 t1 c = (case x of
      Inl e \<Rightarrow> Inr \<lparr>cr_err = Some e, cr_suite = s1, cr_events = e0 @ e1, cr_body = NoBody\<rparr>
    | Inr resp \<Rightarrow> Inr (after_response net t1 c resp (e0 @ e1) s1))"
  proof (cases x)
    case (Inl e)
    then show ?thesis by (simp add: u Inr cl 0 d 1)
  next
    case (Inr resp)
    obtain hs' y where rd: "ReadAll net resp = (hs', y)" by (cases "ReadAll net resp")
    obtain s2 e2 where 2: "call_hooks (getClientTrace c) hs' s1 = (s2, e2)" by (cases "call_hooks (getClientTrace c) hs' s1")
    from Inr show ?thesis
      by (cases y) (simp_all add: u \<open>NewRequest net _ _ _ = _\<close> cl 0 d 1 after_response_def rd 2 case_prod_beta)
  qed
  show ?thesis
  proof (cases x)
    case (Inl e)
    with m q1 e0 Inr d show ?thesis by (auto simp: exchange_def result_for_def)
  next
    case (Inr resp)
    with m e0(1) after_response_result [OF g1 q1, of c t1 resp net] \<open>NewRequest net _ _ _ = _\<close> d
    show ?thesis by (simp add: exchange_def)
  qed
qed

text \<open>
  C19. A call with a client never panics and its result is that of the exchange: an error of any part is
  returned; \<^verbatim>\<open>onReq\<close> is called once and first, before the request is sent, and only if it
  could be built; \<^verbatim>\<open>onResp\<close> is called once and last if the whole body was read, with the
  status code, the verdict on the response and both general times set, and never after an error. The
  body is closed after it was read, but left open when reading it failed.
\<close>

theorem makeCall_outcome:
  fixes c :: "('x, 'h) http_caller"
  assumes "client c = Some cl"
  shows "\<exists>r evs. makeCall net t0 t1 c = Inr r \<and> list_all (\<lambda>e. \<not> is_resp e \<and> \<not> is_req e) evs \<and>
    (case exchange net c cl of
       NoRequest e \<Rightarrow> cr_err r = Some e \<and> cr_body r = NoBody \<and> cr_events r = []
     | DoFailed e \<Rightarrow> cr_err r = Some e \<and> cr_body r = NoBody \<and> cr_events r = req_events c t0 @ evs
     | ReadFailed e resp \<Rightarrow> cr_err r = Some e \<and> cr_body r = BodyOpen (resp_Body resp) \<and>
         cr_events r = req_events c t0 @ evs
     | Answered resp b \<Rightarrow> cr_err r = None \<and> cr_body r = BodyClosed (resp_Body resp) \<and>
         (\<exists>s. cr_events r = req_events c t0 @ evs @
            (if onResp c = None then [] else
              [CalledResp s \<lparr>StatusCode = resp_StatusCode resp,
                 IsValidResponse = (case isValidResponse c of None \<Rightarrow> True | Some f \<Rightarrow> f resp b)\<rparr>]) \<and>
            GetGeneralStart s = t0 \<and> (onResp c \<noteq> None \<longrightarrow> GetGeneralEnd s = t1)))"
  using makeCall_result [OF assms, of net t0 t1] unfolding result_for_def .

section \<open>Witnesses\<close>

text \<open>A caller that listens to DNS starts and to responses, and keeps their number in \<^verbatim>\<open>Extra\<close>.\<close>

definition sample_caller :: "(nat, nat) http_caller" where
  "sample_caller = projr (NewHTTPCaller 0 ''http://h'' [
     WithHTTPCallerOnDNSStart (Some (\<lambda>s info. Some (case Extra s of None \<Rightarrow> 1 | Some n \<Rightarrow> n + 1))),
     WithHTTPCallerOnResp (Some (\<lambda>s info. Extra s)),
     WithHTTPCallerIsValidResponse (Some (\<lambda>resp b. length b = 2))])"

definition sample_hooks :: "(time \<times> hook) list" where
  "sample_hooks = [(10, HookDNSStart ''h''), (20, HookDNSDone \<lparr>dns_Addrs = [], dns_Err = None, dns_Coalesced = False\<rparr>),
     (30, HookDNSStart ''g''), (40, HookWroteHeaders)]"

definition sample_response :: response where
  "sample_response = \<lparr>resp_StatusCode = 200, resp_Header = Map.empty, resp_Body = 7\<rparr>"

text \<open>A server whose response has the given body, or one that cannot be read.\<close>

definition sample_net :: "byte list option \<Rightarrow> nat http_net" where
  "sample_net b = \<lparr>
     NewRequest = (\<lambda>m u b. Inr \<lparr>req_Method = m, req_URL = u, req_Body = b, req_Header = Map.empty, req_Host = u\<rparr>),
     Do = (\<lambda>cl t req. (sample_hooks, Inr sample_response)),
     ReadAll = (\<lambda>resp. ([], case b of None \<Rightarrow> Inl (ExternalError 1) | Some b \<Rightarrow> Inr b))\<rparr>"

theorem suite_follows_hooks_witness:
  "\<exists>s evs. call_hooks (getClientTrace sample_caller) sample_hooks (new_suite 5) = (s, evs) \<and>
     GetDNSStart s = 30 \<and> GetDNSEnd s = 20 \<and> GetWroteHeaders s = 40 \<and> GetTLSStart s = zero_time \<and>
     map event_hook evs = [Some (10, HookDNSStart ''h''), Some (30, HookDNSStart ''g'')]"
proof -
  obtain s evs where r: "call_hooks (getClientTrace sample_caller) sample_hooks (new_suite 5) = (s, evs)"
    by (cases "call_hooks (getClientTrace sample_caller) sample_hooks (new_suite 5)")
  note f = suite_follows_hooks [OF r]
  have "listens sample_caller (HookDNSStart i)" "\<not> listens sample_caller HookWroteHeaders"
    "\<not> listens sample_caller (HookDNSDone d)" for i d
    by (simp_all add: sample_caller_def NewHTTPCaller_def default_options_def With_defs)
  then have e: "map event_hook evs = [Some (10, HookDNSStart ''h''), Some (30, HookDNSStart ''g'')]"
    using f by (simp add: sample_hooks_def)
  have "timers s = map (\<lambda>k. latest k sample_hooks (timers (new_suite 5 :: nat trace_suite) ! k)) [0..<8]" using f by blast
  then have "timers s = [30, 20, zero_time, zero_time, zero_time, zero_time, 40, zero_time]"
    by (simp add: sample_hooks_def upt_rec timers_def getter_defs new_suite_def)
  then have "GetDNSStart s = 30" "GetDNSEnd s = 20" "GetWroteHeaders s = 40" "GetTLSStart s = zero_time"
    by (simp_all add: timers_def)
  with r e show ?thesis by (intro exI [of _ s] exI [of _ evs]) simp
qed

lemma sample_caller_client: "client sample_caller = Some 0"
  by (simp add: sample_caller_def NewHTTPCaller_def default_options_def With_defs)

theorem makeCall_outcome_witness:
  "(\<exists>r. makeCall (sample_net None) 5 50 sample_caller = Inr r \<and> cr_err r = Some (ExternalError 1) \<and> cr_body r = BodyOpen 7) \<and>
   (\<exists>r. makeCall (sample_net (Some [1, 2])) 5 50 sample_caller = Inr r \<and> cr_err r = None \<and> cr_body r = BodyClosed 7)"
proof -
  have "exchange (sample_net None) sample_caller 0 = ReadFailed (ExternalError 1) sample_response"
    "exchange (sample_net (Some [1, 2])) sample_caller 0 = Answered sample_response [1, 2]"
    by (simp_all add: exchange_def sample_net_def)
  with makeCall_outcome [OF sample_caller_client, of "sample_net None" 5 50]
    makeCall_outcome [OF sample_caller_client, of "sample_net (Some [1, 2])" 5 50]
  show ?thesis by (auto simp: sample_response_def)
qed

end
