(* ===== verification/Http_Run.thy ===== *)
theory Http_Run
  imports Http_Call
begin

text \<open>
  A running \<^verbatim>\<open>HTTPCaller\<close> of \<^verbatim>\<open>http.go\<close>: \<^verbatim>\<open>run\<close>, \<^verbatim>\<open>runWorkScheduler\<close>, \<^verbatim>\<open>runCallers\<close> and
  \<^verbatim>\<open>Stop\<close> as a transition system of the scheduler, the workers, the callers of \<^verbatim>\<open>Run\<close> and
  \<^verbatim>\<open>Stop\<close>, and the world (ticker, context, the client's calls of \<^verbatim>\<open>Stop\<close>). A step is one
  channel operation with the code up to the next, or one \<^verbatim>\<open>makeCall\<close>.
\<close>

section \<open>State\<close>

text \<open>The scheduler: before its ticker is made, in its \<^verbatim>\<open>select\<close>, sending to \<^verbatim>\<open>workChan\<close>, gone.\<close>

datatype sched_pc = SStart | SSelect | SSend | SGone

datatype worker_pc = WSelect | WCall | WGone

text \<open>
  \<open>work\<close> is the number of tokens in \<^verbatim>\<open>workChan\<close>; \<open>stopping\<close> and \<open>stopped\<close> count the calls of
  \<^verbatim>\<open>Stop\<close> that wait and that have returned. \<open>taken\<close> and \<open>calls\<close> are history: the ticks the
  scheduler has taken and the calls begun.
\<close>

record http_state =
  work :: nat
  done_ch :: chan
  ctx_done :: bool
  ticking :: bool
  tick :: bool
  sched :: sched_pc
  workers :: "worker_pc list"
  returned :: bool
  stopping :: nat
  stopped :: nat
  logged_lines :: "log_line list"
  taken :: nat
  calls :: nat
  http_boom :: "panic option"

section \<open>Starting\<close>

text \<open>\<^verbatim>\<open>doneWg.Go\<close> starts a goroutine; \<open>idle\<close> is the caller before \<^verbatim>\<open>run\<close>.\<close>

definition idle :: "('x, 'h) http_caller \<Rightarrow> http_state" where
  "idle c = \<lparr>work = 0, done_ch = doneChan c, ctx_done = False, ticking = False, tick = False,
     sched = SGone, workers = [], returned = False, stopping = 0, stopped = 0, logged_lines = [],
     taken = 0, calls = 0, http_boom = None\<rparr>"

definition runWorkScheduler :: "http_state \<Rightarrow> http_state" where
  "runWorkScheduler s = s\<lparr>sched := SStart\<rparr>"

definition runCallers :: "('x, 'h) http_caller \<Rightarrow> http_state \<Rightarrow> http_state" where
  "runCallers c s = s\<lparr>workers := workers s @ replicate (nat (maxConcurrentCalls c)) WSelect\<rparr>"

definition http_run :: "('x, 'h) http_caller \<Rightarrow> http_state" where
  "http_run c = runCallers c (runWorkScheduler (idle c))"

section \<open>The scheduler\<close>

definition sched_start :: "('x, 'h) http_caller \<Rightarrow> http_state \<Rightarrow> http_state" where
  "sched_start c s =
     (if callFrequency c \<le> 0 then s\<lparr>http_boom := Some NonPositiveTicker\<rparr>
      else s\<lparr>ticking := True, sched := SSelect\<rparr>)"

definition sched_tick :: "http_state \<Rightarrow> http_state" where
  "sched_tick s = s\<lparr>tick := False, sched := SSend, taken := taken s + 1\<rparr>"

definition sched_send :: "http_state \<Rightarrow> http_state" where
  "sched_send s = s\<lparr>work := work s + 1, sched := SSelect\<rparr>"

definition sched_return :: "http_state \<Rightarrow> http_state" where
  "sched_return s = s\<lparr>ticking := False, tick := False, sched := SGone\<rparr>"

section \<open>The workers\<close>

definition worker_take :: "nat \<Rightarrow> http_state \<Rightarrow> http_state" where
  "worker_take i s = s\<lparr>work := work s - 1, workers := (workers s)[i := WCall], calls := calls s + 1\<rparr>"

definition worker_finish :: "('x, 'h) http_caller \<Rightarrow> nat \<Rightarrow> 'x call_result go \<Rightarrow> http_state \<Rightarrow> http_state" where
  "worker_finish c i r s = (case r of
       Inl e \<Rightarrow> s\<lparr>http_boom := Some e\<rparr>
     | Inr r \<Rightarrow>
        (let s = s\<lparr>workers := (workers s)[i := WSelect]\<rparr>
         in case cr_err r of
              None \<Rightarrow> s
            | Some e \<Rightarrow> s\<lparr>logged_lines := logged_lines s @
                Errorf (logger_or_noop (h_logger c)) ''failed making a call: %v'' [ArgError e]\<rparr>))"

definition worker_return :: "nat \<Rightarrow> http_state \<Rightarrow> http_state" where
  "worker_return i s = s\<lparr>workers := (workers s)[i := WGone]\<rparr>"

section \<open>Stop\<close>

definition http_Stop :: "http_state \<Rightarrow> http_state" where
  "http_Stop s = (case chan_close (done_ch s) of
       Inl e \<Rightarrow> s\<lparr>http_boom := Some e\<rparr>
     | Inr d \<Rightarrow> s\<lparr>done_ch := d, stopping := stopping s + 1\<rparr>)"

section \<open>Steps\<close>

definition all_gone :: "http_state \<Rightarrow> bool" where
  "all_gone s \<longleftrightarrow> sched s = SGone \<and> list_all (\<lambda>w. w = WGone) (workers s)"

definition quitting :: "http_state \<Rightarrow> bool" where
  "quitting s \<longleftrightarrow> ctx_done s \<or> chan_ready (done_ch s)"

text \<open>
  The goroutines. The buffer of \<^verbatim>\<open>workChan\<close> has room for \<open>workChan_cap\<close> tokens; without any there
  are no workers to receive one either. The network and the clock of a call are free.
\<close>

inductive http_step :: "('x, 'h) http_caller \<Rightarrow> http_state \<Rightarrow> http_state \<Rightarrow> bool"
  for c :: "('x, 'h) http_caller" where
  start: "sched s = SStart \<Longrightarrow> http_step c s (sched_start c s)"
| take_tick: "sched s = SSelect \<Longrightarrow> tick s \<Longrightarrow> http_step c s (sched_tick s)"
| sched_quit: "sched s = SSelect \<Longrightarrow> quitting s \<Longrightarrow> http_step c s (sched_return s)"
| send: "sched s = SSend \<Longrightarrow> work s < workChan_cap c \<Longrightarrow> http_step c s (sched_send s)"
| take_work: "i < length (workers s) \<Longrightarrow> workers s ! i = WSelect \<Longrightarrow> 0 < work s \<Longrightarrow> http_step c s (worker_take i s)"
| call: "i < length (workers s) \<Longrightarrow> workers s ! i = WCall \<Longrightarrow>
    http_step c s (worker_finish c i (makeCall net t0 t1 c) s)"
| worker_quit: "i < length (workers s) \<Longrightarrow> workers s ! i = WSelect \<Longrightarrow> quitting s \<Longrightarrow> http_step c s (worker_return i s)"
| run_returns: "all_gone s \<Longrightarrow> \<not> returned s \<Longrightarrow> http_step c s (s\<lparr>returned := True\<rparr>)"
| stop_returns: "all_gone s \<Longrightarrow> 0 < stopping s \<Longrightarrow>
    http_step c s (s\<lparr>stopping := stopping s - 1, stopped := stopped s + 1\<rparr>)"

inductive http_world :: "http_state \<Rightarrow> http_state \<Rightarrow> bool" where
  ticks: "ticking s \<Longrightarrow> http_world s (s\<lparr>tick := True\<rparr>)"
| cancelled: "http_world s (s\<lparr>ctx_done := True\<rparr>)"
| client_Stop: "http_world s (http_Stop s)"

inductive http_reached :: "('x, 'h) http_caller \<Rightarrow> http_state \<Rightarrow> bool" for c :: "('x, 'h) http_caller" where
  begin_run: "http_reached c (http_run c)"
| next_step: "http_reached c s \<Longrightarrow> http_boom s = None \<Longrightarrow> http_step c s s' \<or> http_world s s' \<Longrightarrow> http_reached c s'"

text \<open>
  A call of \<^verbatim>\<open>RunWithContext\<close> that has returned, by the state it leaves; and one of \<^verbatim>\<open>Run\<close>, whose
  background context is never done.
\<close>

definition http_RunWithContext :: "('x, 'h) http_caller \<Rightarrow> http_state \<Rightarrow> bool" where
  "http_RunWithContext c s \<longleftrightarrow> http_reached c s \<and> returned s"

definition http_Run :: "('x, 'h) http_caller \<Rightarrow> http_state \<Rightarrow> bool" where
  "http_Run c s \<longleftrightarrow> http_RunWithContext c s \<and> \<not> ctx_done s"

lemmas http_defs = sched_start_def sched_tick_def sched_send_def sched_return_def worker_take_def
  worker_return_def http_Stop_def

section \<open>Invariant\<close>

text \<open>How many workers are in a call, and how many tokens the scheduler is about to send.\<close>

definition in_send :: "http_state \<Rightarrow> nat" where
  "in_send s = (if sched s = SSend then 1 else 0)"

definition http_inv :: "('x, 'h) http_caller \<Rightarrow> http_state \<Rightarrow> bool" where
  "http_inv c s \<longleftrightarrow>
     (http_boom s = None \<or> http_boom s = Some CloseOfClosed) \<and>
     work s \<le> workChan_cap c \<and> length (workers s) = workChan_cap c \<and>
     taken s = calls s + work s + in_send s \<and>
     done_ch s \<noteq> NilChan \<and> (stopping s + stopped s = (if done_ch s = ClosedChan then 1 else 0)) \<and>
     (sched s = SGone \<or> WGone \<in> set (workers s) \<longrightarrow> quitting s) \<and>
     (returned s \<or> 0 < stopped s \<longrightarrow> all_gone s)"

text \<open>A caller as \<^verbatim>\<open>NewHTTPCaller\<close> builds it, with a positive frequency and a client.\<close>

definition runnable :: "('x, 'h) http_caller \<Rightarrow> bool" where
  "runnable c \<longleftrightarrow> int (workChan_cap c) = maxConcurrentCalls c \<and> doneChan c = OpenChan \<and>
     0 < callFrequency c \<and> client c \<noteq> None"

lemma runnable_New:
  assumes "NewHTTPCaller fresh u os = Inr c" "0 < callFrequency c" "client c \<noteq> None"
  shows "runnable c"
  using NewHTTPCaller_Inr [OF assms(1)] assms(2,3) by (simp add: runnable_def)

lemma http_inv_run: "runnable c \<Longrightarrow> http_inv c (http_run c)"
  by (auto simp: http_inv_def runnable_def http_run_def runCallers_def runWorkScheduler_def idle_def in_send_def
      split: if_splits)

lemma makeCall_total: "runnable c \<Longrightarrow> \<exists>r. makeCall net t0 t1 c = Inr r"
  using makeCall_result [of c _ net t0 t1] by (auto simp: runnable_def)

lemma makeCall_no_panic: "runnable c \<Longrightarrow> makeCall net t0 t1 c \<noteq> Inl e"
  using makeCall_total [of c net t0 t1] by auto

text \<open>Once a goroutine has gone it stays gone; only a receiver changes the list of workers.\<close>

lemma set_update_gone: "x \<noteq> WGone \<Longrightarrow> WGone \<in> set (ws[i := x]) \<Longrightarrow> WGone \<in> set ws"
  using set_update_subset_insert [of ws i x] by auto

lemma all_gone_worker: "all_gone s \<Longrightarrow> i < length (workers s) \<Longrightarrow> workers s ! i = WGone"
  by (simp add: all_gone_def list_all_length)

lemma http_inv_step:
  assumes "http_inv c s" "runnable c" "http_boom s = None" "http_step c s s'"
  shows "http_inv c s'"
  using assms(4)
proof cases
  case start
  with assms(1-3) show ?thesis
    by (auto simp: http_inv_def sched_start_def runnable_def in_send_def all_gone_def quitting_def)
next
  case take_tick
  with assms(1) show ?thesis by (auto simp: http_inv_def sched_tick_def in_send_def all_gone_def quitting_def)
next
  case sched_quit
  with assms(1) show ?thesis by (auto simp: http_inv_def sched_return_def in_send_def all_gone_def quitting_def)
next
  case send
  with assms(1) show ?thesis by (auto simp: http_inv_def sched_send_def in_send_def all_gone_def quitting_def)
next
  case (take_work i)
  then have "\<not> all_gone s" using all_gone_worker by force
  with take_work assms(1) show ?thesis
    by (auto simp: http_inv_def worker_take_def in_send_def quitting_def dest!: set_update_gone [rotated])
next
  case (call i net t0 t1)
  then have "\<not> all_gone s" using all_gone_worker by force
  moreover obtain r where "makeCall net t0 t1 c = Inr r" using makeCall_total [OF assms(2)] by blast
  ultimately show ?thesis using call assms(1)
    by (auto simp: http_inv_def worker_finish_def Let_def in_send_def quitting_def split: option.split
        dest!: set_update_gone [rotated])
next
  case (worker_quit i)
  then have "\<not> all_gone s" using all_gone_worker by force
  with worker_quit assms(1) show ?thesis by (auto simp: http_inv_def worker_return_def in_send_def quitting_def)
next
  case run_returns
  with assms(1) show ?thesis by (auto simp: http_inv_def in_send_def all_gone_def quitting_def)
next
  case stop_returns
  moreover from this assms(1) have "done_ch s = ClosedChan" by (auto simp: http_inv_def split: if_splits)
  ultimately show ?thesis using assms(1) by (auto simp: http_inv_def in_send_def all_gone_def quitting_def)
qed

lemma http_inv_world:
  assumes "http_inv c s" "http_boom s = None" "http_world s s'"
  shows "http_inv c s'"
  using assms(3)
proof cases
  case client_Stop
  with assms(1,2) show ?thesis
    by (cases "done_ch s") (auto simp: http_inv_def http_Stop_def in_send_def all_gone_def quitting_def chan_ready_def)
qed (use assms(1) in \<open>auto simp: http_inv_def in_send_def all_gone_def quitting_def\<close>)

lemma http_reached_inv: "http_reached c s \<Longrightarrow> runnable c \<Longrightarrow> http_inv c s"
  by (induction rule: http_reached.induct) (auto intro: http_inv_run http_inv_step http_inv_world)

section \<open>Stopping\<close>

text \<open>
  The scheduler waits to send, the buffer is full and nobody is left to receive: \<^verbatim>\<open>workChan <- struct{}{}\<close>
  stands outside the \<^verbatim>\<open>select\<close>, so that neither the context nor \<^verbatim>\<open>doneChan\<close> can end the wait.
\<close>

definition stuck :: "('x, 'h) http_caller \<Rightarrow> http_state \<Rightarrow> bool" where
  "stuck c s \<longleftrightarrow> sched s = SSend \<and> work s = workChan_cap c \<and> list_all (\<lambda>w. w = WGone) (workers s)"

lemma stuck_no_step:
  assumes "stuck c s"
  shows "\<not> http_step c s s'"
proof
  assume "http_step c s s'"
  moreover have "workers s ! i = WGone" if "i < length (workers s)" for i
    using assms that by (simp add: stuck_def list_all_length)
  ultimately show False using assms by cases (auto simp: stuck_def all_gone_def)
qed

text \<open>How far a quitting caller is from its end, if no more ticks come.\<close>

fun sched_rank :: "sched_pc \<Rightarrow> nat" where
  "sched_rank SStart = 2"
| "sched_rank SSelect = 1"
| "sched_rank SSend = 4"
| "sched_rank SGone = 0"

fun worker_rank :: "worker_pc \<Rightarrow> nat" where
  "worker_rank WCall = 2"
| "worker_rank WSelect = 1"
| "worker_rank WGone = 0"

definition http_rank :: "http_state \<Rightarrow> nat" where
  "http_rank s = sched_rank (sched s) + 2 * work s + sum_list (map worker_rank (workers s)) +
     (if returned s then 0 else 1)"

lemma rank_update:
  "i < length ws \<Longrightarrow> sum_list (map worker_rank (ws[i := x])) + worker_rank (ws ! i) =
     sum_list (map worker_rank ws) + worker_rank x"
  by (induction ws arbitrary: i) (auto split: nat.split simp: nth_Cons)

lemma worker_alive:
  assumes "\<not> list_all (\<lambda>w. w = WGone) ws"
  obtains i where "i < length ws" "ws ! i = WSelect" | i where "i < length ws" "ws ! i = WCall"
proof -
  obtain i where "i < length ws" "ws ! i \<noteq> WGone" using assms by (auto simp: list_all_length)
  then show thesis using that by (cases "ws ! i") auto
qed

text \<open>A step that brings a quitting caller nearer to its end.\<close>

definition nearer :: "('x, 'h) http_caller \<Rightarrow> http_state \<Rightarrow> http_state \<Rightarrow> bool" where
  "nearer c s s' \<longleftrightarrow> http_step c s s' \<and> \<not> stuck c s' \<and> quitting s' \<and> http_boom s' = None \<and> http_rank s' < http_rank s"

text \<open>A call in progress can end, whatever its result; a token in the channel can be taken.\<close>

lemma call_ends:
  assumes c: "runnable c" and i: "i < length (workers s)" "workers s ! i = WCall"
  obtains s' where "http_step c s s'" "workers s' = (workers s)[i := WSelect]" "sched s' = sched s" "work s' = work s"
    "quitting s' = quitting s" "http_boom s' = http_boom s" "http_rank s' < http_rank s"
proof -
  fix net t0 t1
  obtain r where r: "makeCall net t0 t1 c = Inr r" using makeCall_total [OF c] by blast
  let ?s = "worker_finish c i (Inr r) s"
  have step: "http_step c s ?s" using http_step.call [OF i, of c net t0 t1] r by simp
  have f: "workers ?s = (workers s)[i := WSelect]" "sched ?s = sched s" "work ?s = work s" "returned ?s = returned s"
    "quitting ?s = quitting s" "http_boom ?s = http_boom s"
    by (simp_all add: worker_finish_def Let_def quitting_def split: option.split)
  then have "http_rank ?s < http_rank s"
    using rank_update [OF i(1), of WSelect] i(2) by (simp add: http_rank_def)
  with step f show thesis by (intro that [of ?s]) simp_all
qed

lemma take_ends:
  assumes i: "i < length (workers s)" "workers s ! i = WSelect" and w: "0 < work s"
  shows "http_step c s (worker_take i s)" "http_rank (worker_take i s) < http_rank s"
    "quitting (worker_take i s) = quitting s" "http_boom (worker_take i s) = http_boom s"
  using http_step.take_work [OF i w, of c] rank_update [OF i(1), of WCall] i(2) w
  by (simp_all add: http_rank_def worker_take_def quitting_def)

lemma call_nearer:
  assumes c: "runnable c" and i: "i < length (workers s)" "workers s ! i = WCall"
    and s: "quitting s" "http_boom s = None"
  shows "\<exists>s'. nearer c s s'"
proof (rule call_ends [OF c i])
  fix s' assume s': "http_step c s s'" "workers s' = (workers s)[i := WSelect]" "quitting s' = quitting s"
    "http_boom s' = http_boom s" "http_rank s' < http_rank s"
  have "WSelect \<in> set (workers s')" using i(1) s'(2) by (simp add: set_update_memI)
  then have "\<not> stuck c s'" by (auto simp: stuck_def list_all_iff)
  with s' s show ?thesis by (auto simp: nearer_def)
qed

lemma worker_nearer:
  assumes c: "runnable c" and w: "\<not> list_all (\<lambda>w. w = WGone) (workers s)" and "sched s = SGone"
    and s: "quitting s" "http_boom s = None"
  shows "\<exists>s'. nearer c s s'"
  using w
proof (cases rule: worker_alive)
  case (1 i)
  have "http_rank (worker_return i s) < http_rank s"
    using rank_update [OF 1(1), of WGone] 1(2) by (simp add: http_rank_def worker_return_def)
  then have "nearer c s (worker_return i s)"
    using http_step.worker_quit [OF 1 s(1), of c] assms by (simp add: nearer_def stuck_def quitting_def worker_return_def)
  then show ?thesis by blast
next
  case (2 i)
  then show ?thesis using call_nearer c s by blast
qed

lemma full_nearer:
  assumes c: "runnable c" and i: "http_inv c s" and "sched s = SSend" "work s = workChan_cap c" "\<not> stuck c s"
    and s: "quitting s" "http_boom s = None"
  shows "\<exists>s'. nearer c s s'"
proof -
  have "\<not> list_all (\<lambda>w. w = WGone) (workers s)" using assms by (simp add: stuck_def)
  then show ?thesis
  proof (cases rule: worker_alive)
    case (1 i)
    have w: "0 < work s" using 1(1) assms(2,4) by (simp add: http_inv_def)
    have "\<not> stuck c (worker_take i s)" using w assms(4) by (auto simp: stuck_def worker_take_def)
    with take_ends [OF 1 w] s have "nearer c s (worker_take i s)" by (simp add: nearer_def)
    then show ?thesis by blast
  next
    case (2 i)
    then show ?thesis using call_nearer c s by blast
  qed
qed

lemma some_nearer:
  assumes c: "runnable c" and i: "http_inv c s" and "\<not> stuck c s" "\<not> returned s"
    and s: "quitting s" "http_boom s = None"
  shows "\<exists>s'. nearer c s s'"
proof (cases "sched s")
  case SStart
  then have "nearer c s (sched_start c s)"
    using http_step.start [OF SStart, of c] c s
    by (simp add: nearer_def sched_start_def runnable_def stuck_def quitting_def http_rank_def)
  then show ?thesis by blast
next
  case SSelect
  then have "nearer c s (sched_return s)"
    using http_step.sched_quit [OF SSelect s(1), of c] s
    by (simp add: nearer_def sched_return_def stuck_def quitting_def http_rank_def)
  then show ?thesis by blast
next
  case SSend
  show ?thesis
  proof (cases "work s = workChan_cap c")
    case True
    with full_nearer [OF c i SSend] assms(3) s show ?thesis by blast
  next
    case False
    with i have w: "work s < workChan_cap c" by (simp add: http_inv_def)
    have "nearer c s (sched_send s)"
      using http_step.send [OF SSend w] s SSend
      by (simp add: nearer_def sched_send_def stuck_def quitting_def http_rank_def)
    then show ?thesis by blast
  qed
next
  case SGone
  show ?thesis
  proof (cases "list_all (\<lambda>w. w = WGone) (workers s)")
    case True
    with SGone have "all_gone s" by (simp add: all_gone_def)
    from http_step.run_returns [OF this assms(4), of c] have "nearer c s (s\<lparr>returned := True\<rparr>)"
      using s SGone assms(4) by (simp add: nearer_def stuck_def quitting_def http_rank_def)
    then show ?thesis by blast
  next
    case False
    with worker_nearer [OF c] SGone s show ?thesis by blast
  qed
qed

lemma quitting_returns:
  assumes "runnable c" "http_inv c s" "\<not> stuck c s" "quitting s" "http_boom s = None"
  shows "\<exists>s'. (http_step c)\<^sup>*\<^sup>* s s' \<and> returned s'"
  using assms
proof (induction "http_rank s" arbitrary: s rule: less_induct)
  case less
  show ?case
  proof (cases "returned s")
    case False
    with less.prems obtain s1 where n: "nearer c s s1" using some_nearer [of c s] by blast
    then have "http_inv c s1" using http_inv_step [of c s s1] less.prems by (simp add: nearer_def)
    with less.hyps [of s1] n less.prems(1) obtain s2 where "(http_step c)\<^sup>*\<^sup>* s1 s2" "returned s2"
      by (auto simp: nearer_def)
    with n show ?thesis by (meson nearer_def converse_rtranclp_into_rtranclp)
  qed blast
qed

section \<open>Catching up\<close>

text \<open>Nothing to do until the next tick.\<close>

definition caught_up :: "http_state \<Rightarrow> bool" where
  "caught_up s \<longleftrightarrow> sched s = SSelect \<and> work s = 0 \<and> list_all (\<lambda>w. w = WSelect) (workers s)"

definition busy :: "('x, 'h) http_caller \<Rightarrow> http_state \<Rightarrow> http_state \<Rightarrow> bool" where
  "busy c s s' \<longleftrightarrow> http_step c s s' \<and> \<not> quitting s' \<and> http_boom s' = None \<and> http_rank s' < http_rank s"

lemma worker_busy:
  assumes c: "runnable c" and i: "http_inv c s" and s: "\<not> quitting s" "http_boom s = None"
    and w: "0 < work s \<and> workers s \<noteq> [] \<or> \<not> list_all (\<lambda>w. w = WSelect) (workers s)"
  shows "\<exists>s'. busy c s s'"
proof (cases "WCall \<in> set (workers s)")
  case True
  then obtain i where "i < length (workers s)" "workers s ! i = WCall" by (auto simp: in_set_conv_nth)
  from call_ends [OF c this] s show ?thesis by (metis busy_def)
next
  case False
  have "WGone \<notin> set (workers s)" using i s(1) by (simp add: http_inv_def)
  with False have all: "w = WSelect" if "w \<in> set (workers s)" for w using that by (cases w) auto
  then have w': "0 < work s" "0 < length (workers s)" using w by (auto simp: list_all_iff)
  then have "workers s ! 0 = WSelect" by (intro all nth_mem)
  note t = take_ends [OF w'(2) this w'(1)]
  have "busy c s (worker_take 0 s)" using t(1) [of c] t(2-4) s by (simp add: busy_def)
  then show ?thesis ..
qed

lemma some_busy:
  assumes c: "runnable c" "0 < maxConcurrentCalls c" and i: "http_inv c s" and s: "\<not> quitting s" "http_boom s = None"
    and "\<not> caught_up s"
  shows "\<exists>s'. busy c s s'"
proof -
  have ne: "workers s \<noteq> []" "0 < workChan_cap c" using i c by (auto simp: http_inv_def runnable_def)
  note worker = worker_busy [OF c(1) i s]
  show ?thesis
  proof (cases "sched s")
    case SStart
    then have "busy c s (sched_start c s)"
      using http_step.start [OF SStart, of c] c(1) s
      by (simp add: busy_def sched_start_def runnable_def quitting_def http_rank_def)
    then show ?thesis by blast
  next
    case SSelect
    then show ?thesis using assms(6) ne by (intro worker) (auto simp: caught_up_def)
  next
    case SSend
    show ?thesis
    proof (cases "work s < workChan_cap c")
      case True
      then have "busy c s (sched_send s)"
        using http_step.send [OF SSend True] s SSend by (simp add: busy_def sched_send_def quitting_def http_rank_def)
      then show ?thesis by blast
    next
      case False
      then show ?thesis using ne by (intro worker) simp
    qed
  next
    case SGone
    then show ?thesis using i s(1) by (simp add: http_inv_def)
  qed
qed

lemma catches_up:
  assumes "runnable c" "0 < maxConcurrentCalls c" "http_inv c s" "\<not> quitting s" "http_boom s = None"
  shows "\<exists>s'. (http_step c)\<^sup>*\<^sup>* s s' \<and> caught_up s' \<and> http_inv c s'"
  using assms
proof (induction "http_rank s" arbitrary: s rule: less_induct)
  case less
  show ?case
  proof (cases "caught_up s")
    case False
    with less.prems obtain s1 where n: "busy c s s1" using some_busy [of c s] by blast
    then have "http_inv c s1" using http_inv_step [of c s s1] less.prems by (simp add: busy_def)
    with less.hyps [of s1] n less.prems(1,2) obtain s2 where "(http_step c)\<^sup>*\<^sup>* s1 s2" "caught_up s2" "http_inv c s2"
      by (auto simp: busy_def)
    with n show ?thesis by (meson busy_def converse_rtranclp_into_rtranclp)
  qed (use less.prems in blast)
qed

section \<open>Properties\<close>

text \<open>
  C12. The books of an HTTP prober, on every schedule: at most \<^verbatim>\<open>maxConcurrentCalls\<close> calls are in
  progress; no call is begun without a tick, and the ticks that are not yet calls are at most one more than
  the buffer holds; \<^verbatim>\<open>Run\<close> and \<^verbatim>\<open>Stop\<close> return only when every goroutine is gone, \<^verbatim>\<open>Run\<close> moreover only
  after a \<^verbatim>\<open>Stop\<close> and \<^verbatim>\<open>RunWithContext\<close> after one or the end of its context; and nothing panics but a
  second \<^verbatim>\<open>Stop\<close>. The caller is one that \<^verbatim>\<open>NewHTTPCaller\<close> builds with a positive call frequency and a client
  that is not nil; without them \<^verbatim>\<open>time.NewTicker\<close> or the call of \<^verbatim>\<open>Do\<close> panics.
\<close>

theorem http_accounting:
  assumes "NewHTTPCaller fresh u os = Inr c" "0 < callFrequency c" "client c \<noteq> None" "http_reached c s"
  shows "int (length (filter (\<lambda>w. w = WCall) (workers s))) \<le> maxConcurrentCalls c \<and>
    calls s \<le> taken s \<and> int (taken s) \<le> int (calls s) + maxConcurrentCalls c + 1 \<and>
    (returned s \<or> 0 < stopped s \<longrightarrow> all_gone s) \<and>
    (http_Run c s \<longrightarrow> done_ch s = ClosedChan) \<and> (http_RunWithContext c s \<longrightarrow> quitting s) \<and>
    (http_boom s = None \<or> http_boom s = Some CloseOfClosed \<and> done_ch s = ClosedChan \<and> stopping s + stopped s = 1)"
proof -
  have r: "runnable c" by (rule runnable_New [OF assms(1-3)])
  note i = http_reached_inv [OF assms(4) r]
  have n: "int (workChan_cap c) = maxConcurrentCalls c" using r by (simp add: runnable_def)
  have "length (filter (\<lambda>w. w = WCall) (workers s)) \<le> workChan_cap c"
    using i length_filter_le [of "\<lambda>w. w = WCall" "workers s"] by (simp add: http_inv_def)
  then have 1: "int (length (filter (\<lambda>w. w = WCall) (workers s))) \<le> maxConcurrentCalls c" using n by simp
  have "in_send s \<le> 1" by (simp add: in_send_def)
  with i n have 2: "calls s \<le> taken s" "int (taken s) \<le> int (calls s) + maxConcurrentCalls c + 1"
    by (auto simp: http_inv_def)
  have 3: "http_boom s = None \<or> http_boom s = Some CloseOfClosed \<and> done_ch s = ClosedChan \<and> stopping s + stopped s = 1"
    using assms(4) i
  proof cases
    case (next_step t)
    have "http_inv c t" using http_reached_inv [OF next_step(1) r] .
    from next_step(3) show ?thesis
    proof
      assume st: "http_step c t s"
      have "http_boom s = None"
        using st next_step(2) makeCall_no_panic [OF r] r
        by cases (auto simp: http_defs worker_finish_def Let_def runnable_def split: option.split sum.split)
      then show ?thesis ..
    next
      assume "http_world t s"
      then show ?thesis using next_step(2) \<open>http_inv c t\<close> i
        by cases (cases "done_ch t"; auto simp: http_Stop_def http_inv_def)+
    qed
  qed (simp add: http_run_def runCallers_def runWorkScheduler_def idle_def)
  from i have "returned s \<or> 0 < stopped s \<longrightarrow> all_gone s" by (simp add: http_inv_def)
  moreover have "http_RunWithContext c s \<longrightarrow> quitting s"
    using i by (auto simp: http_RunWithContext_def http_inv_def all_gone_def)
  moreover from this have "http_Run c s \<longrightarrow> done_ch s = ClosedChan"
    by (auto simp: http_Run_def quitting_def chan_ready_def)
  ultimately show ?thesis using 1 2 3 by blast
qed

text \<open>
  C13. What it takes to stop: once the context is cancelled or \<^verbatim>\<open>Stop\<close> has been called, the goroutines
  can finish, each call in progress having ended, and \<^verbatim>\<open>Run\<close> returns, in every state but one kind:
  the scheduler waiting to send into a full channel that has no receiver any more.
\<close>

theorem http_stop_iff:
  assumes "NewHTTPCaller fresh u os = Inr c" "0 < callFrequency c" "client c \<noteq> None"
    and "http_reached c s" "http_boom s = None" "quitting s"
  shows "(\<exists>s'. (http_step c)\<^sup>*\<^sup>* s s' \<and> returned s') \<longleftrightarrow> \<not> stuck c s"
proof
  have r: "runnable c" by (rule runnable_New [OF assms(1-3)])
  note i = http_reached_inv [OF assms(4) r]
  show "\<exists>s'. (http_step c)\<^sup>*\<^sup>* s s' \<and> returned s'" if "\<not> stuck c s"
    using quitting_returns [OF r i that assms(6,5)] .
  show "\<not> stuck c s" if "\<exists>s'. (http_step c)\<^sup>*\<^sup>* s s' \<and> returned s'"
  proof
    assume st: "stuck c s"
    from that obtain s' where s': "(http_step c)\<^sup>*\<^sup>* s s'" "returned s'" by blast
    from s'(1) have "s' = s"
    proof (cases rule: converse_rtranclpE)
      case (step t)
      with stuck_no_step [OF st] show ?thesis by blast
    qed simp
    with s'(2) i st show False by (auto simp: http_inv_def stuck_def all_gone_def)
  qed
qed

text \<open>
  C15. A caller that is neither stopped nor cancelled and has a worker catches up: from every
  reachable state its goroutines can reach one in which every tick taken has become a call,
  all calls have ended and the scheduler waits for the next tick.
\<close>

theorem http_catches_up:
  assumes "NewHTTPCaller fresh u os = Inr c" "0 < callFrequency c" "client c \<noteq> None" "0 < maxConcurrentCalls c"
    and "http_reached c s" "http_boom s = None" "\<not> quitting s"
  shows "\<exists>s'. (http_step c)\<^sup>*\<^sup>* s s' \<and> caught_up s' \<and> calls s' = taken s'"
proof -
  have r: "runnable c" by (rule runnable_New [OF assms(1-3)])
  from catches_up [OF r assms(4) http_reached_inv [OF assms(5) r] assms(7,6)]
  show ?thesis by (auto simp: caught_up_def http_inv_def in_send_def)
qed

lemma stuck_forever:
  assumes "(\<lambda>a b. http_step c a b \<or> http_world a b)\<^sup>*\<^sup>* s t" "stuck c s" "\<not> returned s" "stopped s = 0"
  shows "stuck c t \<and> \<not> returned t \<and> stopped t = 0"
  using assms(1)
proof (induction rule: rtranclp_induct)
  case (step a b)
  then have "http_world a b" using stuck_no_step [of c a b] by blast
  then show ?case using step.IH
    by cases (auto simp: stuck_def http_Stop_def split: sum.split)
qed (use assms in simp)

text \<open>The default caller, and a schedule on which \<^verbatim>\<open>Stop\<close> comes while the scheduler waits to send.\<close>

definition one_worker :: "http_state \<Rightarrow> sched_pc \<Rightarrow> nat \<Rightarrow> worker_pc \<Rightarrow> bool" where
  "one_worker s sc w pc \<longleftrightarrow> sched s = sc \<and> work s = w \<and> workers s = [pc] \<and> http_boom s = None \<and> done_ch s = OpenChan \<and>
     ticking s \<and> \<not> returned s \<and> stopping s = 0 \<and> stopped s = 0"

lemma one_tick:
  assumes "http_reached c s" "one_worker s SSelect w pc"
  shows "\<exists>s'. http_reached c s' \<and> one_worker s' SSend w pc"
proof -
  let ?t = "s\<lparr>tick := True\<rparr>"
  have "http_world s ?t" using assms(2) by (intro http_world.ticks) (simp add: one_worker_def)
  with assms have t: "http_reached c ?t" by (meson next_step one_worker_def)
  have "http_step c ?t (sched_tick ?t)" using assms(2) by (intro http_step.take_tick) (simp_all add: one_worker_def)
  with t have "http_reached c (sched_tick ?t)" using assms(2) by (intro next_step [OF t]) (simp_all add: one_worker_def)
  then show ?thesis using assms(2) by (auto simp: one_worker_def sched_tick_def)
qed

lemma one_send:
  assumes "http_reached c s" "one_worker s SSend 0 pc" "workChan_cap c = 1"
  shows "\<exists>s'. http_reached c s' \<and> one_worker s' SSelect 1 pc"
proof -
  have "http_step c s (sched_send s)" using assms by (intro http_step.send) (simp_all add: one_worker_def)
  then have "http_reached c (sched_send s)" using assms by (intro next_step [OF assms(1)]) (simp_all add: one_worker_def)
  then show ?thesis using assms(2) by (auto simp: one_worker_def sched_send_def)
qed

lemma default_deadlock:
  assumes c: "runnable c" "workChan_cap c = 1"
  shows "\<exists>s. http_reached c s \<and> stuck c s \<and> stopping s = 1 \<and> stopped s = 0 \<and> \<not> returned s \<and> http_boom s = None"
proof -
  let ?s0 = "sched_start c (http_run c)"
  have "http_step c (http_run c) ?s0"
    by (intro http_step.start) (simp add: http_run_def runCallers_def runWorkScheduler_def)
  then have "http_reached c ?s0"
    by (intro next_step [OF begin_run]) (simp_all add: http_run_def runCallers_def runWorkScheduler_def idle_def)
  moreover have "nat (maxConcurrentCalls c) = Suc 0" using c by (simp add: runnable_def)
  then have "one_worker ?s0 SSelect 0 WSelect"
    using c by (simp add: one_worker_def sched_start_def http_run_def runCallers_def runWorkScheduler_def idle_def
        runnable_def)
  ultimately obtain s1 where "http_reached c s1" "one_worker s1 SSend 0 WSelect" using one_tick by blast
  then obtain s2 where 2: "http_reached c s2" "one_worker s2 SSelect 1 WSelect" using one_send c(2) by blast
  let ?s3 = "worker_take 0 s2"
  have "http_step c s2 ?s3" using 2(2) by (intro http_step.take_work) (simp_all add: one_worker_def)
  then have "http_reached c ?s3" using 2 by (intro next_step [OF 2(1)]) (simp_all add: one_worker_def)
  moreover have "one_worker ?s3 SSelect 0 WCall" using 2(2) by (simp add: one_worker_def worker_take_def)
  ultimately obtain s4 where "http_reached c s4" "one_worker s4 SSend 0 WCall" using one_tick by blast
  then obtain s5 where "http_reached c s5" "one_worker s5 SSelect 1 WCall" using one_send c(2) by blast
  then obtain s6 where 6: "http_reached c s6" "one_worker s6 SSend 1 WCall" using one_tick by blast
  let ?s7 = "http_Stop s6"
  have 7: "http_reached c ?s7" using 6 by (intro next_step [OF 6(1)]) (auto simp: one_worker_def intro: http_world.client_Stop)
  have f7: "?s7 = s6\<lparr>done_ch := ClosedChan, stopping := 1\<rparr>" using 6(2) by (simp add: http_Stop_def one_worker_def)
  fix net t0 t1
  obtain r where r: "makeCall net t0 t1 c = Inr r" using makeCall_total [OF c(1)] by blast
  let ?s8 = "worker_finish c 0 (Inr r) ?s7"
  have "http_step c ?s7 ?s8" using http_step.call [of 0 ?s7 c net t0 t1] 6(2) r by (simp add: f7 one_worker_def)
  then have 8: "http_reached c ?s8" using 6(2) by (intro next_step [OF 7]) (simp_all add: f7 one_worker_def)
  have f8: "workers ?s8 = [WSelect]" "sched ?s8 = SSend" "work ?s8 = 1" "returned ?s8 = False" "stopping ?s8 = 1"
    "stopped ?s8 = 0" "http_boom ?s8 = None" "done_ch ?s8 = ClosedChan"
    using 6(2) by (simp_all add: worker_finish_def Let_def f7 one_worker_def split: option.split)
  let ?s9 = "worker_return 0 ?s8"
  have "http_step c ?s8 ?s9" using f8 by (intro http_step.worker_quit) (simp_all add: quitting_def chan_ready_def)
  then have "http_reached c ?s9" using f8 by (intro next_step [OF 8]) simp_all
  moreover have "stuck c ?s9" "stopping ?s9 = 1" "stopped ?s9 = 0" "\<not> returned ?s9" "http_boom ?s9 = None"
    using f8 c(2) by (simp_all add: stuck_def worker_return_def)
  ultimately show ?thesis by blast
qed

lemma default_caller:
  obtains c :: "('x, 'h) http_caller" where "NewHTTPCaller fresh u [] = Inr c" "0 < callFrequency c" "client c \<noteq> None"
    "runnable c" "workChan_cap c = 1"
proof -
  obtain c :: "('x, 'h) http_caller" where c: "NewHTTPCaller fresh u [] = Inr c" "callFrequency c = 1000000000"
    "client c = Some fresh" "maxConcurrentCalls c = 1"
    by (simp add: NewHTTPCaller_def default_options_def)
  have "runnable c" by (rule runnable_New [OF c(1)]) (simp_all add: c)
  with c NewHTTPCaller_Inr(1) [OF c(1)] show thesis by (intro that [of c]) simp_all
qed

text \<open>
  C14. \<^verbatim>\<open>Stop\<close> can hang for good, with the default options and a server that is slower than the
  ticks: a reachable state in which \<^verbatim>\<open>Stop\<close> has been called and from which, whatever still
  happens (a cancelled context included), neither \<^verbatim>\<open>Stop\<close> nor \<^verbatim>\<open>Run\<close> ever returns.
\<close>

theorem http_stop_deadlock:
  "\<exists>c s. NewHTTPCaller fresh u ([] :: ('x, 'h) http_option list) = Inr c \<and> http_reached c s \<and> stopping s = 1 \<and> http_boom s = None \<and>
    (\<nexists>t. (\<lambda>a b. http_step c a b \<or> http_world a b)\<^sup>*\<^sup>* s t \<and> (returned t \<or> 0 < stopped t))"
proof -
  obtain c :: "('x, 'h) http_caller" where c: "NewHTTPCaller fresh u [] = Inr c" "runnable c" "workChan_cap c = 1"
    by (rule default_caller)
  from default_deadlock [OF c(2,3)] obtain s where s: "http_reached c s" "stuck c s" "stopping s = 1" "stopped s = 0"
    "\<not> returned s" "http_boom s = None" by blast
  have "\<nexists>t. (\<lambda>a b. http_step c a b \<or> http_world a b)\<^sup>*\<^sup>* s t \<and> (returned t \<or> 0 < stopped t)"
    using stuck_forever [OF _ s(2,5,4)] by auto
  with c(1) s show ?thesis by blast
qed

section \<open>Witnesses\<close>

theorem http_accounting_witness:
  "\<exists>(c :: (nat, nat) http_caller) s. NewHTTPCaller 0 ''http://h'' [] = Inr c \<and> http_reached c s \<and> stopping s = 1 \<and>
     int (taken s) \<le> int (calls s) + maxConcurrentCalls c + 1"
proof -
  obtain c :: "(nat, nat) http_caller" where c: "NewHTTPCaller 0 ''http://h'' [] = Inr c" "0 < callFrequency c"
    "client c \<noteq> None" "runnable c" "workChan_cap c = 1" by (rule default_caller)
  obtain s where s: "http_reached c s" "stopping s = 1" using default_deadlock [OF c(4,5)] by blast
  from http_accounting [OF c(1-3) s(1)] c(1) s show ?thesis by blast
qed

text \<open>Cancelled at once, the default caller returns; stuck, it does not.\<close>

theorem http_stop_iff_witness:
  "\<exists>(c :: (nat, nat) http_caller) s t. NewHTTPCaller 0 ''http://h'' [] = Inr c \<and> http_reached c s \<and> http_reached c t \<and>
     (\<exists>s'. (http_step c)\<^sup>*\<^sup>* s s' \<and> returned s') \<and> \<not> (\<exists>t'. (http_step c)\<^sup>*\<^sup>* t t' \<and> returned t')"
proof -
  obtain c :: "(nat, nat) http_caller" where c: "NewHTTPCaller 0 ''http://h'' [] = Inr c" "0 < callFrequency c"
    "client c \<noteq> None" "runnable c" "workChan_cap c = 1" by (rule default_caller)
  let ?s = "(http_run c)\<lparr>ctx_done := True\<rparr>"
  have b: "http_boom (http_run c) = None" "sched (http_run c) = SStart"
    by (simp_all add: http_run_def runCallers_def runWorkScheduler_def idle_def)
  have s: "http_reached c ?s" using b by (intro next_step [OF begin_run]) (simp_all add: http_world.cancelled)
  have s': "\<exists>s'. (http_step c)\<^sup>*\<^sup>* ?s s' \<and> returned s'"
    using http_stop_iff [OF c(1-3) s] b by (simp add: quitting_def stuck_def)
  obtain t where t: "http_reached c t" "stuck c t" "stopping t = 1" "http_boom t = None"
    using default_deadlock [OF c(4,5)] by blast
  have "done_ch t = ClosedChan" using http_reached_inv [OF t(1) c(4)] t(3) by (auto simp: http_inv_def split: if_splits)
  then have "\<not> (\<exists>t'. (http_step c)\<^sup>*\<^sup>* t t' \<and> returned t')"
    using http_stop_iff [OF c(1-3) t(1)] t by (simp add: quitting_def chan_ready_def)
  with c(1) s s' t(1) show ?thesis by blast
qed

theorem http_catches_up_witness:
  "\<exists>(c :: (nat, nat) http_caller) s'. NewHTTPCaller 0 ''http://h'' [] = Inr c \<and> (http_step c)\<^sup>*\<^sup>* (http_run c) s' \<and>
     caught_up s' \<and> calls s' = taken s'"
proof -
  obtain c :: "(nat, nat) http_caller" where c: "NewHTTPCaller 0 ''http://h'' [] = Inr c" "0 < callFrequency c"
    "client c \<noteq> None" "runnable c" "workChan_cap c = 1" by (rule default_caller)
  have "0 < maxConcurrentCalls c" using c(4,5) by (simp add: runnable_def)
  from http_catches_up [OF c(1-3) this begin_run] c(1,4) show ?thesis
    by (auto simp: http_run_def runCallers_def runWorkScheduler_def idle_def quitting_def chan_ready_def runnable_def)
qed

end
