(* ===== verification/Spec2Isabelle.thy ===== *)
theory Spec2Isabelle
  imports Filter_Receive Run_History Run_Success Ping_Command Http_Run
begin

text \<open>
  Verification of pro-bing, a Go library that pings hosts by ICMP and probes servers by HTTP.

  \<^bold>\<open>The program.\<close> A \<^verbatim>\<open>Pinger\<close> (\<^verbatim>\<open>src/ping.go\<close>) is built by \<^verbatim>\<open>New\<close> or \<^verbatim>\<open>NewPinger\<close> and configured by its
  setters and exported fields. \<^verbatim>\<open>RunWithContext\<close> resolves the address, opens a socket, sets the
  options of the socket and calls \<^verbatim>\<open>run\<close>, which starts three goroutines: a watcher of the context,
  \<^verbatim>\<open>recvICMP\<close>, which reads datagrams under the timeouts of \<^verbatim>\<open>expBackoff\<close> and hands them on through a
  channel of five, and \<^verbatim>\<open>runLoop\<close>, which calls \<^verbatim>\<open>sendICMP\<close> on the ticks of the interval and \<^verbatim>\<open>processPacket\<close>
  for what the channel brings. Sender and receiver share the map of the sequence numbers in flight.
  Every goroutine ends by \<^verbatim>\<open>Stop\<close>, which closes the channel \<^verbatim>\<open>done\<close> the others watch; \<^verbatim>\<open>finish\<close> reports the
  \<^verbatim>\<open>Statistics\<close>. The sockets lie behind the interface \<^verbatim>\<open>packetConn\<close> (\<^verbatim>\<open>src/packetconn.go\<close>), whose methods
  differ by address family and system (\<^verbatim>\<open>src/utils_linux.go\<close>, \<^verbatim>\<open>src/utils_windows.go\<close>,
  \<^verbatim>\<open>src/utils_other.go\<close>). An \<^verbatim>\<open>HTTPCaller\<close> (\<^verbatim>\<open>src/http.go\<close>) is independent of it: a scheduler turns the
  ticks of a clock into tokens of a channel, workers turn tokens into calls of \<^verbatim>\<open>makeCall\<close>. Both
  log through \<^verbatim>\<open>Logger\<close> (\<^verbatim>\<open>src/logger.go\<close>). The command \<^verbatim>\<open>src/cmd/ping/ping.go\<close> runs a pinger.

  \<^bold>\<open>The theories.\<close>
  \<^item> \<open>Go_Prelude\<close>: 64-bit integers (\<open>i64\<close> wraps), instants and durations in nanoseconds, errors
    with the wrapping of package net, panics as the left of a sum (\<open>go\<close>, \<open>go_bind\<close>), channels that are
    only closed, slices.
  \<^item> \<open>Float64\<close>: the IEEE double arithmetic the statistics are computed in, on rationals.
  \<^item> \<open>Wire_Codec\<close>: \<^verbatim>\<open>timeToBytes\<close>, \<^verbatim>\<open>bytesToTime\<close>, \<^verbatim>\<open>stripIPv4Header\<close>. \<open>Net_Addr\<close>: \<^verbatim>\<open>isIPv4\<close>.
    \<open>Logger\<close>: \<^verbatim>\<open>logger.go\<close>.
  \<^item> \<open>Pinger_State\<close>: the structs of \<^verbatim>\<open>ping.go\<close> as records, \<^verbatim>\<open>New\<close>, setters and getters, \<^verbatim>\<open>Stop\<close>.
    \<open>Pinger_Stats\<close>: \<^verbatim>\<open>updateStatistics\<close>, \<^verbatim>\<open>Statistics\<close>. \<open>Pinger_Resolve\<close>: \<^verbatim>\<open>Resolve\<close>, \<^verbatim>\<open>SetAddr\<close>, \<^verbatim>\<open>NewPinger\<close>.
  \<^item> \<open>Packet_Conn\<close>, \<open>Utils_Linux\<close>, \<open>Utils_Windows\<close>, \<open>Utils_Other\<close>: the methods of the
    connections, file by file; \<open>Platform\<close> chooses between them and states what all connections
    promise as locales; \<open>Bpf_Filter\<close>: the meaning of the Linux socket filters; \<open>Filter_Receive\<close>: the filter in front of \<^verbatim>\<open>processPacket\<close>.
  \<^item> \<open>Pinger_Recv\<close>: \<^verbatim>\<open>processPacket\<close>; \<open>Pinger_Send\<close>: \<^verbatim>\<open>sendICMP\<close>; \<open>Wire_Laws\<close>: what the codecs of
    third parties document; \<open>Pinger_Tracker\<close>: sender and receiver together, over any sequence of steps.
  \<^item> \<open>Backoff\<close>: \<^verbatim>\<open>expBackoff\<close>; \<open>Pinger_Run\<close>: \<^verbatim>\<open>run\<close>, \<^verbatim>\<open>runLoop\<close>, \<^verbatim>\<open>recvICMP\<close>, \<^verbatim>\<open>finish\<close> as a step relation
    of the goroutines and of the world around them (record \<open>world\<close>: may it cancel, stop, time out, and how
    it changes a connection); \<open>Run_Invariant\<close>, \<open>Run_Properties\<close>: its invariant and properties; \<open>Run_History\<close>: what
    later states keep of earlier ones; \<open>Pinger_Setup\<close>: \<^verbatim>\<open>listen\<close>, \<^verbatim>\<open>RunWithContext\<close>, and \<^verbatim>\<open>Run\<close>, whose world does not
    cancel; \<open>Run_Reasons\<close>, \<open>Run_Success\<close>: why a call ends, and that it can succeed; \<open>Ping_Command\<close>: \<^verbatim>\<open>main\<close>.
  \<^item> \<open>Http_Options\<close>: the structs of \<^verbatim>\<open>http.go\<close>, the options, \<^verbatim>\<open>NewHTTPCaller\<close>; \<open>Http_Call\<close>: the trace hooks
    and \<^verbatim>\<open>makeCall\<close>; \<open>Http_Run\<close>: \<^verbatim>\<open>run\<close>, the scheduler, the workers and \<^verbatim>\<open>Stop\<close> as a step relation.

  \<^bold>\<open>How state and effects correspond.\<close> A struct is a record with the source's field names, a suffix or
  prefix where HOL has the name already. A method is a function from the record to the record and a
  result; callbacks and log lines are a trace of events, in the order of the calls. Locks do not
  appear: a definition is one critical section, and the step relations interleave at the channel
  operations and at the socket operations of the goroutines. Times, random numbers, new UUIDs, the
  resolver, the socket and the network are arguments. A callback of the client does not change the pinger.

  \<^bold>\<open>What the lemmas show.\<close>
  \<^item> In flight (\<open>Pinger_Tracker\<close>): the set of awaited keys of the sender and the receiver refines a
    simple tracker (locale \<open>inflight_spec\<close>), so that no reply is counted twice and sent minus
    received is what is in flight, over any number of roll-overs; a request that is echoed is
    recognised, for any codec that satisfies \<open>icmp_laws\<close> and \<open>uuid_laws\<close>.
  \<^item> Goroutines (\<open>Run_Invariant\<close>, \<open>Run_Properties\<close>, \<open>Http_Run\<close>): invariants of all reachable states by rule induction, absence
    of panics, progress, and return after a stop by a rank that some goroutine can always lower.
    The HTTP caller catches up with its ticks while it runs; its scheduler has one deadlock when
    it is stopped, which is characterised exactly.
  \<^item> A whole call (\<open>Pinger_Setup\<close>): set-up, run and deferred close composed; the socket is watched by
    logging the operations it sees. The locale \<open>conn_inv\<close> carries a predicate of a connection through
    every step of a run, and is interpreted on the sockets of both families.
  \<^item> The end of a call (\<open>Run_Reasons\<close>, \<open>Run_Success\<close>, \<open>Run_History\<close>): undisturbed, a goroutine ends only
    with an error of its own or when \<^verbatim>\<open>Count\<close> replies are in, so that a call without an error has had every
    request answered; against a host that answers (\<open>answers\<close>, with the third-party codecs under their
    laws) such a call exists, and takes at most nine steps a request; counters, callbacks and the stop
    channel are monotone over any schedule.
  \<^item> Statistics (\<open>Pinger_Stats\<close>): the locale \<open>accumulator\<close> proves a folded invariant once, and is
    interpreted for the recorded values, the integer average and the floating point deviation.
  \<^item> Bytes (\<open>Wire_Codec\<close>, \<open>Bpf_Filter\<close>): round trips, and the exact set of packets the filters accept;
    \<open>Filter_Receive\<close>: what a filter drops \<^verbatim>\<open>processPacket\<close> would have ignored, for a codec with \<open>icmp_layout\<close>
    and reads that take the IP header off, as \<^verbatim>\<open>x/net\<close> documents, or leave it (\<open>read_as\<close>); the receiver's
    buffer holds the echo of any request, on every system (\<open>Run_Properties\<close>).
  \<^item> Configuration (\<open>Pinger_Resolve\<close>, \<open>Http_Options\<close>): which configurations can be reached, and that a
    caller has, in every field, what the last option of its kind asks for, or the default.

  \<^bold>\<open>Bounds.\<close> There is no fuel. The write loop of \<^verbatim>\<open>sendICMP\<close>, which may not end, is a
  partial function whose value is \<open>None\<close> when it does not; every other recursion is structural or
  has a measure. Integers wrap at 64 bits; properties that count assume a run of fewer than \<open>2 ^ 63\<close>
  steps, so that \<^verbatim>\<open>PacketsSent\<close> cannot wrap, and a payload of at most \<open>2 ^ 52\<close> bytes. \<^verbatim>\<open>float64\<close> operations are
  rounded one by one; a compiler that fuses a product and a sum may differ in the last place.

  \<^bold>\<open>Parameters.\<close> Code outside the repository is an argument: \<^verbatim>\<open>golang.org/x/net\<close> (records \<open>xnet\<close> and \<open>sys\<close>,
  the ICMP codec of \<open>env\<close>), \<^verbatim>\<open>google/uuid\<close>, the resolver of package net, \<^verbatim>\<open>net/http\<close> (record \<open>http_net\<close>, which
  may call the trace hooks in any order) and \<^verbatim>\<open>rand.Int63n\<close> (\<open>Int63n_law\<close>).

  \<^bold>\<open>Not modelled.\<close> Tests, documentation and build files. The text of log lines and of printed lines (the
  format and its arguments are kept), the parsing of flags and the signal handler's loop. Data
  races on exported fields, weak memory, and the preemption of one critical section by
  another. Several runs of one pinger or one HTTP caller at a time. That a goroutine that can
  take a step eventually takes one is an assumption on the scheduler, stated where it matters as
  the existence of the steps.
\<close>

end
